theory Spec2Isabelle
  imports Main "HOL-Library.Extended_Nat" "HOL-Library.Sublist"
begin

section \<open>JavaScript values, objects and thrown errors\<close>

text \<open>
  The embedding pipeline reads query rows of TypeScript type \<open>any\<close>. A value is one of
  the JavaScript values these modules handle; numbers stay abstract (type \<open>'n\<close>),
  their floating-point arithmetic and printing being parameters of the model.
\<close>

datatype 'n jsval = JUndefined | JNull | JStr string | JNum 'n

text \<open>
  An object is its list of properties, the first binding of a key counting. Reading a
  property that is not there gives \<open>undefined\<close>.
\<close>

type_synonym 'n jsobj = "(string \<times> 'n jsval) list"

definition getProp :: "'n jsobj \<Rightarrow> string \<Rightarrow> 'n jsval" where
  "getProp obj k = (case map_of obj k of None \<Rightarrow> JUndefined | Some v \<Rightarrow> v)"

text \<open>
  \<open>row[i]\<close> reads the property whose key is the decimal numeral of \<open>i\<close>; for an array
  that is its element at index \<open>i\<close>.
\<close>

definition digit :: "nat \<Rightarrow> char" where
  "digit d = ''0123456789'' ! d"

function showNat :: "nat \<Rightarrow> string" where
  "showNat n = (if n < 10 then [digit n] else showNat (n div 10) @ [digit (n mod 10)])"
  by pat_completeness auto
termination
  by (relation "measure (\<lambda>n. n)") auto

definition elemAt :: "'n jsobj \<Rightarrow> nat \<Rightarrow> 'n jsval" where
  "elemAt obj i = getProp obj (showNat i)"

text \<open>An array as an object: element \<open>i\<close> under the key \<open>showNat i\<close>.\<close>

definition arrayObj :: "'n jsval list \<Rightarrow> 'n jsobj" where
  "arrayObj vs = zip (map showNat [0..<length vs]) vs"

text \<open>The nullish coalescing operator \<open>a ?? b\<close>.\<close>

fun nullish :: "'n jsval \<Rightarrow> bool" where
  "nullish JUndefined = True"
| "nullish JNull = True"
| "nullish (JStr s) = False"
| "nullish (JNum n) = False"

definition coalesce :: "'n jsval \<Rightarrow> 'n jsval \<Rightarrow> 'n jsval" where
  "coalesce a b = (if nullish a then b else a)"

text \<open>
  A thrown value, by where it was made: an \<open>Error\<close> this code constructs with
  \<open>new Error(message)\<close>, a \<open>TypeError\<close> of the runtime (a property read on
  \<open>null\<close> or \<open>undefined\<close>, \<open>Array.from(undefined)\<close>), or whatever a callback or
  library call threw (its message when it is an \<open>Error\<close>).
\<close>

datatype thrown = Own string | RuntimeTypeError | External "string option"

text \<open>
  An element of the array a query returned: \<open>null\<close>/\<open>undefined\<close>, on which every
  property read throws, or an object.
\<close>

datatype 'n jsrow = RowNullish | RowObj "'n jsobj"

section \<open>Row-to-record mappings of the embedding pipeline\<close>

record 'n EmbeddableNode =
  en_id :: "'n jsval"
  en_name :: "'n jsval"
  en_label :: "'n jsval"
  en_filePath :: "'n jsval"
  en_content :: "'n jsval"
  en_startLine :: "'n jsval"
  en_endLine :: "'n jsval"

record 'n SemanticSearchResult =
  sr_nodeId :: "'n jsval"
  sr_name :: "'n jsval"
  sr_label :: "'n jsval"
  sr_filePath :: "'n jsval"
  sr_distance :: "'n jsval"
  sr_startLine :: "'n jsval"
  sr_endLine :: "'n jsval"

text \<open>The arrow function mapped over the rows in \<open>queryEmbeddableNodes\<close>.\<close>

fun rowToEmbeddableNode :: "'n jsrow \<Rightarrow> thrown + 'n EmbeddableNode" where
  "rowToEmbeddableNode RowNullish = Inl RuntimeTypeError"
| "rowToEmbeddableNode (RowObj row) = Inr
     \<lparr> en_id = coalesce (getProp row ''id'') (elemAt row 0),
       en_name = coalesce (getProp row ''name'') (elemAt row 1),
       en_label = coalesce (getProp row ''label'') (elemAt row 2),
       en_filePath = coalesce (getProp row ''filePath'') (elemAt row 3),
       en_content = coalesce (coalesce (getProp row ''content'') (elemAt row 4)) (JStr ''''),
       en_startLine = coalesce (getProp row ''startLine'') (elemAt row 5),
       en_endLine = coalesce (getProp row ''endLine'') (elemAt row 6) \<rparr>"

text \<open>The arrow function mapped over the rows in \<open>semanticSearch\<close>.\<close>

fun rowToSearchResult :: "'n jsrow \<Rightarrow> thrown + 'n SemanticSearchResult" where
  "rowToSearchResult RowNullish = Inl RuntimeTypeError"
| "rowToSearchResult (RowObj row) = Inr
     \<lparr> sr_nodeId = coalesce (getProp row ''nodeId'') (elemAt row 0),
       sr_name = coalesce (getProp row ''name'') (elemAt row 1),
       sr_label = coalesce (getProp row ''label'') (elemAt row 2),
       sr_filePath = coalesce (getProp row ''filePath'') (elemAt row 3),
       sr_distance = coalesce (getProp row ''distance'') (elemAt row 4),
       sr_startLine = coalesce (getProp row ''startLine'') (elemAt row 5),
       sr_endLine = coalesce (getProp row ''endLine'') (elemAt row 6) \<rparr>"

text \<open>\<open>rows.map(f)\<close> for an \<open>f\<close> that can throw: the first throw ends the map.\<close>

fun mapRows :: "('a \<Rightarrow> thrown + 'b) \<Rightarrow> 'a list \<Rightarrow> thrown + 'b list" where
  "mapRows f [] = Inr []"
| "mapRows f (x # xs) =
     (case f x of
        Inl e \<Rightarrow> Inl e
      | Inr y \<Rightarrow> (case mapRows f xs of Inl e \<Rightarrow> Inl e | Inr ys \<Rightarrow> Inr (y # ys)))"

section \<open>The embedder module: a singleton model instance\<close>

text \<open>
  \<open>EmbeddingConfig\<close> and \<open>DEFAULT_EMBEDDING_CONFIG\<close> live in \<open>./types\<close>; the record
  has the fields this code reads, and the default configuration is a parameter
  (\<open>dflt\<close>) of every function that spreads it. \<open>batchSize\<close> and \<open>dimensions\<close> are counts.
  \<open>Partial<EmbeddingConfig>\<close> gives each field or leaves it out;
  \<open>{ ...DEFAULT_EMBEDDING_CONFIG, ...config }\<close> is \<open>mergeConfig\<close>.
\<close>

datatype device = webgpu | wasm

record EmbeddingConfig =
  modelId :: string
  batchSize :: nat
  dimensions :: nat
  device :: device

record PartialConfig =
  p_modelId :: "string option"
  p_batchSize :: "nat option"
  p_dimensions :: "nat option"
  p_device :: "device option"

definition mergeConfig :: "EmbeddingConfig \<Rightarrow> PartialConfig \<Rightarrow> EmbeddingConfig" where
  "mergeConfig dflt config =
     \<lparr> modelId = (case p_modelId config of None \<Rightarrow> modelId dflt | Some m \<Rightarrow> m),
       batchSize = (case p_batchSize config of None \<Rightarrow> batchSize dflt | Some b \<Rightarrow> b),
       dimensions = (case p_dimensions config of None \<Rightarrow> dimensions dflt | Some d \<Rightarrow> d),
       device = (case p_device config of None \<Rightarrow> device dflt | Some d \<Rightarrow> d) \<rparr>"

definition asPartial :: "EmbeddingConfig \<Rightarrow> PartialConfig" where
  "asPartial c =
     \<lparr> p_modelId = Some (modelId c), p_batchSize = Some (batchSize c),
       p_dimensions = Some (dimensions c), p_device = Some (device c) \<rparr>"

text \<open>
  The module-level variables \<open>embedderInstance\<close>, \<open>isInitializing\<close> and \<open>initPromise\<close>
  (a promise is named by a number), with the bookkeeping of the model: the
  initialisations suspended at their \<open>await pipeline(...)\<close>, the number of promises
  made so far, every \<open>pipeline(...)\<close> call made (model id and device), and the number
  of \<open>disposeEmbedder\<close> calls suspended at their \<open>await embedderInstance.dispose()\<close>.
\<close>

record task =
  t_promise :: nat
  t_modelId :: string
  t_remaining :: "device list"

record 'p embedder =
  embedderInstance :: "'p option"
  isInitializing :: bool
  initPromise :: "nat option"
  running :: "task list"
  promiseCount :: nat
  pipelineCalls :: "(string \<times> device) list"
  disposing :: nat

definition emb_initial :: "'p embedder" where
  "emb_initial =
     \<lparr> embedderInstance = None, isInitializing = False, initPromise = None,
       running = [], promiseCount = 0, pipelineCalls = [], disposing = 0 \<rparr>"

text \<open>
  What a call of \<open>initEmbedder\<close> returns: a promise already resolved to the cached
  instance, the promise of an initialisation in flight, or the promise of the
  initialisation this call has just started.
\<close>

datatype 'p init_return = Cached 'p | InFlight nat | Started nat

definition devicesToTry :: "EmbeddingConfig \<Rightarrow> device list" where
  "devicesToTry finalConfig = (if device finalConfig = webgpu then [webgpu, wasm] else [wasm])"

text \<open>
  \<open>initEmbedder\<close> up to its first suspension: the two early returns, or else the flag
  is set, the inner async function runs to its first \<open>await pipeline(...)\<close> (the first
  device of \<open>devicesToTry\<close>), and its promise is stored in \<open>initPromise\<close>. The argument
  \<open>onProgress\<close> has no part in this: it only receives the loader's progress data (see
  \<open>awaitInitEmbedder\<close>).
\<close>

definition initEmbedder ::
  "EmbeddingConfig \<Rightarrow> PartialConfig \<Rightarrow> 'p embedder \<Rightarrow> 'p init_return \<times> 'p embedder" where
  "initEmbedder dflt config s =
     (case embedderInstance s of
        Some inst \<Rightarrow> (Cached inst, s)
      | None \<Rightarrow>
          (case (isInitializing s, initPromise s) of
             (True, Some k) \<Rightarrow> (InFlight k, s)
           | _ \<Rightarrow>
               (let finalConfig = mergeConfig dflt config;
                    k = promiseCount s
                in (Started k,
                    s\<lparr> isInitializing := True,
                       initPromise := Some k,
                       running := running s @
                         [\<lparr> t_promise = k, t_modelId = modelId finalConfig,
                            t_remaining = tl (devicesToTry finalConfig) \<rparr>],
                       promiseCount := Suc k,
                       pipelineCalls := pipelineCalls s @
                         [(modelId finalConfig, hd (devicesToTry finalConfig))] \<rparr>))))"

text \<open>
  The rest of the inner async function of the initialisation whose promise is \<open>k\<close>,
  resumed when its awaited \<open>pipeline(...)\<close> call settles: with an instance
  (\<open>Inr\<close>), which is stored and returned, or with a thrown value (\<open>Inl\<close>), after which the
  next device is tried or, none being left, the error is rethrown through the
  \<open>catch\<close> block. The \<open>finally\<close> block clears the flag on both ways out. The second
  component is how promise \<open>k\<close> settled, if it did. A value thrown by \<open>pipeline(...)\<close> is
  taken to be truthy, so that \<open>lastError || new Error('No backend available')\<close> is
  \<open>lastError\<close>.
\<close>

definition pipelineSettled ::
  "nat \<Rightarrow> string option + 'p \<Rightarrow> 'p embedder \<Rightarrow> 'p embedder \<times> (thrown + 'p) option" where
  "pipelineSettled k outcome s =
     (case find (\<lambda>t. t_promise t = k) (running s) of
        None \<Rightarrow> (s, None)
      | Some t \<Rightarrow>
          (let others = filter (\<lambda>u. t_promise u \<noteq> k) (running s) in
           case outcome of
             Inr inst \<Rightarrow>
               (s\<lparr> embedderInstance := Some inst, isInitializing := False, running := others \<rparr>,
                Some (Inr inst))
           | Inl err \<Rightarrow>
               (case t_remaining t of
                  d # ds \<Rightarrow>
                    (s\<lparr> running := others @ [t\<lparr> t_remaining := ds \<rparr>],
                       pipelineCalls := pipelineCalls s @ [(t_modelId t, d)] \<rparr>,
                     None)
                | [] \<Rightarrow>
                    (case embedderInstance s of
                       Some inst \<Rightarrow>
                         (s\<lparr> isInitializing := False, running := others \<rparr>, Some (Inr inst))
                     | None \<Rightarrow>
                         (s\<lparr> isInitializing := False, initPromise := None,
                            embedderInstance := None, running := others \<rparr>,
                          Some (Inl (External err)))))))"

definition isEmbedderReady :: "'p embedder \<Rightarrow> bool" where
  "isEmbedderReady s = (embedderInstance s \<noteq> None)"

definition getEmbedder :: "'p embedder \<Rightarrow> thrown + 'p" where
  "getEmbedder s =
     (case embedderInstance s of
        None \<Rightarrow> Inl (Own ''Embedder not initialized. Call initEmbedder() first.'')
      | Some inst \<Rightarrow> Inr inst)"

text \<open>
  What the stored instance offers \<open>disposeEmbedder\<close>: no \<open>dispose\<close> function, one that
  throws when called, or one that returns (a promise or any other value, which is then
  awaited).
\<close>

datatype disposal = NoDisposeFunction | DisposeThrows | DisposeReturns

text \<open>
  \<open>disposeEmbedder\<close> up to its first suspension. Without an instance it does nothing.
  With one whose \<open>dispose\<close> returns, it is suspended at the \<open>await\<close>, the variables
  untouched; otherwise (no such function, or a throw, which the \<open>catch\<close> swallows) it
  goes on to clear \<open>embedderInstance\<close> and \<open>initPromise\<close>. \<open>isInitializing\<close> is not
  written.
\<close>

definition disposeEmbedder :: "disposal \<Rightarrow> 'p embedder \<Rightarrow> 'p embedder" where
  "disposeEmbedder d s =
     (case embedderInstance s of
        None \<Rightarrow> s
      | Some inst \<Rightarrow>
          (case d of
             DisposeReturns \<Rightarrow> s\<lparr> disposing := Suc (disposing s) \<rparr>
           | _ \<Rightarrow> s\<lparr> embedderInstance := None, initPromise := None \<rparr>))"

text \<open>
  The rest of a suspended \<open>disposeEmbedder\<close> call, resumed when the awaited value
  settles: fulfilled or rejected (the \<open>catch\<close> swallows it), the two variables are
  cleared, whatever they hold by then.
\<close>

definition disposeSettled :: "'p embedder \<Rightarrow> 'p embedder" where
  "disposeSettled s =
     (if disposing s = 0 then s
      else s\<lparr> embedderInstance := None, initPromise := None, disposing := disposing s - 1 \<rparr>)"

text \<open>
  A history of the module: calls of \<open>initEmbedder\<close> and of \<open>disposeEmbedder\<close>,
  settlements of the \<open>pipeline(...)\<close> calls the initialisations wait for, and
  settlements of the \<open>dispose()\<close> calls the disposals wait for, in any order.
\<close>

datatype 'p emb_event =
    CallInit PartialConfig
  | PipelineSettled nat "string option + 'p"
  | CallDispose disposal
  | DisposeSettled

fun emb_step :: "EmbeddingConfig \<Rightarrow> 'p embedder \<Rightarrow> 'p emb_event \<Rightarrow> 'p embedder" where
  "emb_step dflt s (CallInit config) = snd (initEmbedder dflt config s)"
| "emb_step dflt s (PipelineSettled k outcome) = fst (pipelineSettled k outcome s)"
| "emb_step dflt s (CallDispose d) = disposeEmbedder d s"
| "emb_step dflt s DisposeSettled = disposeSettled s"

definition emb_run :: "EmbeddingConfig \<Rightarrow> 'p embedder \<Rightarrow> 'p emb_event list \<Rightarrow> 'p embedder" where
  "emb_run dflt s evs = foldl (emb_step dflt) s evs"

section \<open>Code of other modules and of libraries, as parameters\<close>

text \<open>
  What this code calls without defining it: the constants of \<open>./types\<close>, the model
  instance (\<open>embedder(texts, {pooling, normalize})\<close>, giving \<open>result.data\<close> or throwing),
  \<open>generateBatchEmbeddingTexts\<close> of \<open>./text-generator\<close>, and the arithmetic and printing
  of JavaScript numbers: \<open>String(n)\<close>, a numeric literal, truthiness,
  \<open>Math.round(downloadPercent * 0.2)\<close> and
  \<open>Math.round(20 + (processedNodes / totalNodes) * 70)\<close>, the message of the
  runtime's \<open>TypeError\<close>, and the rounding of a number to single precision, which is
  how a \<open>Float32Array\<close> stores it.
\<close>

record ('p, 'n) ext =
  DEFAULT_EMBEDDING_CONFIG :: EmbeddingConfig
  EMBEDDABLE_LABELS :: "string list"
  callEmbedder :: "'p \<Rightarrow> string list \<Rightarrow> string option + 'n list"
  generateBatchEmbeddingTexts :: "'n EmbeddableNode list \<Rightarrow> EmbeddingConfig \<Rightarrow> string list"
  showNum :: "'n \<Rightarrow> string"
  numLit :: "nat \<Rightarrow> 'n"
  isTruthyNum :: "'n \<Rightarrow> bool"
  roundModelPercent :: "'n jsval \<Rightarrow> 'n"
  roundEmbeddingPercent :: "nat \<Rightarrow> nat \<Rightarrow> 'n"
  typeErrorMessage :: string
  toFloat32 :: "'n \<Rightarrow> 'n"

text \<open>String conversion in a template literal, \<open>xs.join(sep)\<close>, and truthiness.\<close>

fun toStr :: "('p, 'n) ext \<Rightarrow> 'n jsval \<Rightarrow> string" where
  "toStr x JUndefined = ''undefined''"
| "toStr x JNull = ''null''"
| "toStr x (JStr s) = s"
| "toStr x (JNum n) = showNum x n"

fun joinWith :: "string \<Rightarrow> string list \<Rightarrow> string" where
  "joinWith sep [] = []"
| "joinWith sep [a] = a"
| "joinWith sep (a # b # rest) = a @ sep @ joinWith sep (b # rest)"

fun truthy :: "('p, 'n) ext \<Rightarrow> 'n jsval \<Rightarrow> bool" where
  "truthy x JUndefined = False"
| "truthy x JNull = False"
| "truthy x (JStr s) = (s \<noteq> [])"
| "truthy x (JNum n) = isTruthyNum x n"

definition nl :: string where
  "nl = [CHR 0x0A]"

definition sq :: string where
  "sq = [CHR 0x27]"

section \<open>The embedder module: embedding texts\<close>

text \<open>
  \<open>Array.prototype.slice.call(data, start, end)\<close> for \<open>0 \<le> start\<close>: the elements from
  \<open>start\<close> up to \<open>end\<close>, both cut at the length of \<open>data\<close>.
\<close>

definition jsSlice :: "'a list \<Rightarrow> nat \<Rightarrow> nat \<Rightarrow> 'a list" where
  "jsSlice data start end = take (end - start) (drop start data)"

text \<open>
  \<open>new Float32Array(xs)\<close> for an array-like \<open>xs\<close> of numbers: a new array of the same
  length, each element stored in single precision.
\<close>

definition newFloat32Array :: "('p, 'n) ext \<Rightarrow> 'n list \<Rightarrow> 'n list" where
  "newFloat32Array x xs = map (toFloat32 x) xs"

text \<open>
  The loop of \<open>embedBatch\<close> over \<open>i = 0, ..., texts.length - 1\<close>, pushing one
  \<open>Float32Array\<close> each, made of a slice of \<open>result.data\<close>.
\<close>

definition splitVectors :: "('p, 'n) ext \<Rightarrow> nat \<Rightarrow> nat \<Rightarrow> 'n list \<Rightarrow> 'n list list" where
  "splitVectors x dims n data =
     map (\<lambda>i. newFloat32Array x (jsSlice data (i * dims) (i * dims + dims))) [0..<n]"

text \<open>
  \<open>embedBatch\<close> and \<open>embedText\<close> on the module's state, returning with the result the
  texts handed to the model (nothing when the model was not called).
\<close>

definition embedBatch ::
  "('p, 'n) ext \<Rightarrow> 'p embedder \<Rightarrow> string list \<Rightarrow> (thrown + 'n list list) \<times> string list list" where
  "embedBatch x s texts =
     (if length texts = 0 then (Inr [], [])
      else
        (case getEmbedder s of
           Inl e \<Rightarrow> (Inl e, [])
         | Inr embedder \<Rightarrow>
             (case callEmbedder x embedder texts of
                Inl e \<Rightarrow> (Inl (External e), [texts])
              | Inr data \<Rightarrow>
                  (Inr (splitVectors x (dimensions (DEFAULT_EMBEDDING_CONFIG x)) (length texts) data),
                   [texts]))))"

definition embedText ::
  "('p, 'n) ext \<Rightarrow> 'p embedder \<Rightarrow> string \<Rightarrow> (thrown + 'n list) \<times> string list list" where
  "embedText x s text =
     (case getEmbedder s of
        Inl e \<Rightarrow> (Inl e, [])
      | Inr embedder \<Rightarrow>
          (case callEmbedder x embedder [text] of
             Inl e \<Rightarrow> (Inl (External e), [[text]])
           | Inr data \<Rightarrow> (Inr (newFloat32Array x data), [[text]])))"

text \<open>
  The callback \<open>initEmbedder\<close> hands to \<open>pipeline(...)\<close> when it was given an
  \<open>onProgress\<close>: it builds the \<open>ModelProgress\<close> passed on.
\<close>

record 'n LoaderData =
  d_status :: "'n jsval"
  d_file :: "'n jsval"
  d_progress :: "'n jsval"
  d_loaded :: "'n jsval"
  d_total :: "'n jsval"

record 'n ModelProgress =
  mp_status :: "'n jsval"
  mp_file :: "'n jsval"
  mp_progress :: "'n jsval"
  mp_loaded :: "'n jsval"
  mp_total :: "'n jsval"

definition progressCallback :: "('p, 'n) ext \<Rightarrow> 'n LoaderData \<Rightarrow> 'n ModelProgress" where
  "progressCallback x data =
     \<lparr> mp_status = (if truthy x (d_status data) then d_status data else JStr ''progress''),
       mp_file = d_file data,
       mp_progress = d_progress data,
       mp_loaded = d_loaded data,
       mp_total = d_total data \<rparr>"

text \<open>
  Awaiting the promise \<open>k\<close> of an initialisation. The \<open>pipeline(...)\<close> calls it waits
  for settle as \<open>loads\<close> says, one entry per call in order: the data the loader passed
  to its progress callback, then the instance or the thrown value. When \<open>loads\<close> runs
  out before the promise settles the await never returns (\<open>None\<close>).
\<close>

fun awaitPromise ::
  "nat \<Rightarrow> ('n LoaderData list \<times> (string option + 'p)) list \<Rightarrow> 'p embedder \<Rightarrow>
   ((thrown + 'p) \<times> 'n LoaderData list \<times> 'p embedder) option" where
  "awaitPromise k [] s = None"
| "awaitPromise k ((datas, outcome) # rest) s =
     (case pipelineSettled k outcome s of
        (s', Some r) \<Rightarrow> Some (r, datas, s')
      | (s', None) \<Rightarrow>
          (case awaitPromise k rest s' of
             None \<Rightarrow> None
           | Some (r, later, s'') \<Rightarrow> Some (r, datas @ later, s'')))"

text \<open>
  \<open>await initEmbedder(onProgress, config)\<close>: the result, the \<open>ModelProgress\<close> values
  passed to this call's \<open>onProgress\<close> (none when the call found an instance or joined an
  initialisation another call had started), and the state after.
\<close>

definition awaitInitEmbedder ::
  "('p, 'n) ext \<Rightarrow> PartialConfig \<Rightarrow> ('n LoaderData list \<times> (string option + 'p)) list \<Rightarrow>
   'p embedder \<Rightarrow> ((thrown + 'p) \<times> 'n ModelProgress list \<times> 'p embedder) option" where
  "awaitInitEmbedder x config loads s =
     (case initEmbedder (DEFAULT_EMBEDDING_CONFIG x) config s of
        (Cached inst, s') \<Rightarrow> Some (Inr inst, [], s')
      | (InFlight k, s') \<Rightarrow>
          (case awaitPromise k loads s' of
             None \<Rightarrow> None
           | Some (r, datas, s'') \<Rightarrow> Some (r, [], s''))
      | (Started k, s') \<Rightarrow>
          (case awaitPromise k loads s' of
             None \<Rightarrow> None
           | Some (r, datas, s'') \<Rightarrow> Some (r, map (progressCallback x) datas, s'')))"

section \<open>The embedding pipeline module\<close>

text \<open>
  What a run acts on: the database behind \<open>executeQuery\<close>, the embedder module's
  state, and three logs kept by the model: every text passed to \<open>executeQuery\<close>, every
  progress value passed to \<open>onProgress\<close>, and every list of texts passed to the model.
\<close>

datatype phase = Loading_model | Embedding | Indexing | Ready | Error

record 'n EmbeddingProgress =
  pg_phase :: phase
  pg_percent :: 'n
  pg_modelDownloadPercent :: "'n jsval option"
  pg_nodesProcessed :: "nat option"
  pg_totalNodes :: "nat option"
  pg_currentBatch :: "nat option"
  pg_totalBatches :: "enat option"
  pg_error :: "string option"

record ('db, 'p, 'n) world =
  db :: 'db
  emb :: "'p embedder"
  issued :: "string list"
  reported :: "'n EmbeddingProgress list"
  modelCalls :: "string list list"

text \<open>
  \<open>executeQuery\<close> is a parameter of every function here, as in the source: given the
  text and the database it returns rows or throws, and leaves a database.
\<close>

type_synonym ('db, 'n) executeQuery =
  "string \<Rightarrow> 'db \<Rightarrow> (string option + 'n jsrow list) \<times> 'db"

definition callQuery ::
  "('db, 'n) executeQuery \<Rightarrow> string \<Rightarrow> ('db, 'p, 'n) world \<Rightarrow>
   (thrown + 'n jsrow list) \<times> ('db, 'p, 'n) world" where
  "callQuery executeQuery cypher w =
     (case executeQuery cypher (db w) of
        (r, d) \<Rightarrow>
          (let w' = w\<lparr> db := d, issued := issued w @ [cypher] \<rparr>
           in case r of Inl e \<Rightarrow> (Inl (External e), w') | Inr rows \<Rightarrow> (Inr rows, w')))"

definition onProgress ::
  "'n EmbeddingProgress \<Rightarrow> ('db, 'p, 'n) world \<Rightarrow> ('db, 'p, 'n) world" where
  "onProgress p w = w\<lparr> reported := reported w @ [p] \<rparr>"

definition progressOf :: "phase \<Rightarrow> 'n \<Rightarrow> 'n EmbeddingProgress" where
  "progressOf ph pc =
     \<lparr> pg_phase = ph, pg_percent = pc, pg_modelDownloadPercent = None,
       pg_nodesProcessed = None, pg_totalNodes = None, pg_currentBatch = None,
       pg_totalBatches = None, pg_error = None \<rparr>"

definition recordCalls ::
  "string list list \<Rightarrow> ('db, 'p, 'n) world \<Rightarrow> ('db, 'p, 'n) world" where
  "recordCalls calls w = w\<lparr> modelCalls := modelCalls w @ calls \<rparr>"

subsection \<open>The query texts\<close>

definition labelConditions :: "string list \<Rightarrow> string" where
  "labelConditions labels =
     joinWith '' OR '' (map (\<lambda>label. ''n.label = '' @ sq @ label @ sq) labels)"

definition embeddableNodesCypher :: "string list \<Rightarrow> string" where
  "embeddableNodesCypher labels =
     nl @ ''    MATCH (n:CodeNode)'' @
     nl @ ''    WHERE '' @ labelConditions labels @
     nl @ ''    RETURN n.id AS id, n.name AS name, n.label AS label, '' @
     nl @ ''           n.filePath AS filePath, n.content AS content,'' @
     nl @ ''           n.startLine AS startLine, n.endLine AS endLine'' @
     nl @ ''  ''"

definition vectorStr :: "('p, 'n) ext \<Rightarrow> 'n list \<Rightarrow> string" where
  "vectorStr x v = ''['' @ joinWith '','' (map (showNum x) v) @ '']''"

definition updateNodeEmbeddingCypher :: "('p, 'n) ext \<Rightarrow> 'n jsval \<Rightarrow> 'n list \<Rightarrow> string" where
  "updateNodeEmbeddingCypher x nodeId embedding =
     nl @ ''    MATCH (n:CodeNode {id: '' @ sq @ toStr x nodeId @ sq @ ''})'' @
     nl @ ''    SET n.embedding = CAST('' @ vectorStr x embedding @ '' AS FLOAT[384])'' @
     nl @ ''  ''"

definition createVectorIndexCypher :: string where
  "createVectorIndexCypher =
     nl @ ''    CALL CREATE_VECTOR_INDEX('' @ sq @ ''CodeNode'' @ sq @ '', '' @ sq @
       ''code_embedding_idx'' @ sq @ '', '' @ sq @ ''embedding'' @ sq @ '', metric := '' @ sq @
       ''cosine'' @ sq @ '')'' @
     nl @ ''  ''"

definition semanticSearchCypher :: "('p, 'n) ext \<Rightarrow> 'n list \<Rightarrow> 'n \<Rightarrow> 'n \<Rightarrow> string" where
  "semanticSearchCypher x queryVec k maxDistance =
     nl @ ''    CALL QUERY_VECTOR_INDEX('' @ sq @ ''CodeNode'' @ sq @ '', '' @ sq @
       ''code_embedding_idx'' @ sq @ '', '' @
     nl @ ''      CAST('' @ vectorStr x queryVec @ '' AS FLOAT[384]), '' @ showNum x k @ '')'' @
     nl @ ''    YIELD node, distance'' @
     nl @ ''    WHERE distance < '' @ showNum x maxDistance @
     nl @ ''    RETURN node.id AS nodeId, node.name AS name, node.label AS label,'' @
     nl @ ''           node.filePath AS filePath, distance,'' @
     nl @ ''           node.startLine AS startLine, node.endLine AS endLine'' @
     nl @ ''    ORDER BY distance'' @
     nl @ ''  ''"

definition semanticSearchWithContextCypher ::
  "('p, 'n) ext \<Rightarrow> 'n list \<Rightarrow> 'n \<Rightarrow> 'n \<Rightarrow> string" where
  "semanticSearchWithContextCypher x queryVec k hops =
     nl @ ''    CALL QUERY_VECTOR_INDEX('' @ sq @ ''CodeNode'' @ sq @ '', '' @ sq @
       ''code_embedding_idx'' @ sq @ '','' @
     nl @ ''      CAST('' @ vectorStr x queryVec @ '' AS FLOAT[384]), '' @ showNum x k @ '')'' @
     nl @ ''    YIELD node AS match, distance'' @
     nl @ ''    WHERE distance < 0.5'' @
     nl @ ''    MATCH (match)-[r:CodeRelation*1..'' @ showNum x hops @ '']-(connected:CodeNode)'' @
     nl @ ''    RETURN match.id AS matchId, match.name AS matchName, match.label AS matchLabel,'' @
     nl @ ''           match.filePath AS matchPath, distance,'' @
     nl @ ''           collect(DISTINCT {'' @
     nl @ ''             id: connected.id,'' @
     nl @ ''             name: connected.name,'' @
     nl @ ''             label: connected.label,'' @
     nl @ ''             relationType: [rel IN r | rel.type]'' @
     nl @ ''           }) AS connections'' @
     nl @ ''    ORDER BY distance'' @
     nl @ ''  ''"

subsection \<open>Queries and updates\<close>

definition queryEmbeddableNodes ::
  "('p, 'n) ext \<Rightarrow> ('db, 'n) executeQuery \<Rightarrow> ('db, 'p, 'n) world \<Rightarrow>
   (thrown + 'n EmbeddableNode list) \<times> ('db, 'p, 'n) world" where
  "queryEmbeddableNodes x executeQuery w =
     (case callQuery executeQuery (embeddableNodesCypher (EMBEDDABLE_LABELS x)) w of
        (Inl e, w') \<Rightarrow> (Inl e, w')
      | (Inr rows, w') \<Rightarrow> (mapRows rowToEmbeddableNode rows, w'))"

definition updateNodeEmbedding ::
  "('p, 'n) ext \<Rightarrow> ('db, 'n) executeQuery \<Rightarrow> 'n jsval \<Rightarrow> 'n list \<Rightarrow> ('db, 'p, 'n) world \<Rightarrow>
   (thrown + unit) \<times> ('db, 'p, 'n) world" where
  "updateNodeEmbedding x executeQuery nodeId embedding w =
     (case callQuery executeQuery (updateNodeEmbeddingCypher x nodeId embedding) w of
        (Inl e, w') \<Rightarrow> (Inl e, w')
      | (Inr rows, w') \<Rightarrow> (Inr (), w'))"

record 'n update =
  u_id :: "'n jsval"
  u_embedding :: "'n list"

fun batchUpdateEmbeddings ::
  "('p, 'n) ext \<Rightarrow> ('db, 'n) executeQuery \<Rightarrow> 'n update list \<Rightarrow> ('db, 'p, 'n) world \<Rightarrow>
   (thrown + unit) \<times> ('db, 'p, 'n) world" where
  "batchUpdateEmbeddings x executeQuery [] w = (Inr (), w)"
| "batchUpdateEmbeddings x executeQuery (u # us) w =
     (case updateNodeEmbedding x executeQuery (u_id u) (u_embedding u) w of
        (Inl e, w') \<Rightarrow> (Inl e, w')
      | (Inr r, w') \<Rightarrow> batchUpdateEmbeddings x executeQuery us w')"

text \<open>\<open>createVectorIndex\<close> swallows whatever the query throws.\<close>

definition createVectorIndex ::
  "('db, 'n) executeQuery \<Rightarrow> ('db, 'p, 'n) world \<Rightarrow> ('db, 'p, 'n) world" where
  "createVectorIndex executeQuery w = snd (callQuery executeQuery createVectorIndexCypher w)"

subsection \<open>The pipeline run\<close>

definition errorMessage :: "('p, 'n) ext \<Rightarrow> thrown \<Rightarrow> string" where
  "errorMessage x e =
     (case e of
        Own m \<Rightarrow> m
      | RuntimeTypeError \<Rightarrow> typeErrorMessage x
      | External (Some m) \<Rightarrow> m
      | External None \<Rightarrow> ''Unknown error'')"

text \<open>The callback the run hands to \<open>initEmbedder\<close>: one progress value per call.\<close>

definition modelProgressReport :: "('p, 'n) ext \<Rightarrow> 'n ModelProgress \<Rightarrow> 'n EmbeddingProgress" where
  "modelProgressReport x modelProgress =
     (let downloadPercent = coalesce (mp_progress modelProgress) (JNum (numLit x 0))
      in (progressOf Loading_model (roundModelPercent x downloadPercent))
           \<lparr> pg_modelDownloadPercent := Some downloadPercent \<rparr>)"

text \<open>
  \<open>Math.ceil(totalNodes / batchSize)\<close> for \<open>totalNodes > 0\<close>: \<open>Infinity\<close> when the batch
  size is \<open>0\<close>.
\<close>

definition totalBatchesOf :: "nat \<Rightarrow> nat \<Rightarrow> enat" where
  "totalBatchesOf n b = (if b = 0 then \<infinity> else enat ((n + b - 1) div b))"

text \<open>
  \<open>batch.map((node, i) => ({ id: node.id, embedding: embeddingToArray(embeddings[i]) }))\<close>:
  \<open>Array.from(undefined)\<close> throws when \<open>embeddings\<close> is shorter than the batch.
\<close>

definition buildUpdates :: "'n EmbeddableNode list \<Rightarrow> 'n list list \<Rightarrow> thrown + 'n update list" where
  "buildUpdates batch embeddings =
     (if length embeddings < length batch then Inl RuntimeTypeError
      else Inr (map (\<lambda>(node, e). \<lparr> u_id = en_id node, u_embedding = e \<rparr>) (zip batch embeddings)))"

text \<open>One turn of the batch loop; it returns the new \<open>processedNodes\<close>.\<close>

definition batchStep ::
  "('p, 'n) ext \<Rightarrow> ('db, 'n) executeQuery \<Rightarrow> EmbeddingConfig \<Rightarrow> 'n EmbeddableNode list \<Rightarrow>
   enat \<Rightarrow> nat \<Rightarrow> nat \<Rightarrow> ('db, 'p, 'n) world \<Rightarrow> (thrown + nat) \<times> ('db, 'p, 'n) world" where
  "batchStep x executeQuery finalConfig nodes totalBatches batchIndex processedNodes w =
     (let start = batchIndex * batchSize finalConfig;
          end = min (start + batchSize finalConfig) (length nodes);
          batch = jsSlice nodes start end;
          texts = generateBatchEmbeddingTexts x batch finalConfig
      in case embedBatch x (emb w) texts of
           (Inl e, calls) \<Rightarrow> (Inl e, recordCalls calls w)
         | (Inr embeddings, calls) \<Rightarrow>
             (case buildUpdates batch embeddings of
                Inl e \<Rightarrow> (Inl e, recordCalls calls w)
              | Inr updates \<Rightarrow>
                  (case batchUpdateEmbeddings x executeQuery updates (recordCalls calls w) of
                     (Inl e, w') \<Rightarrow> (Inl e, w')
                   | (Inr r, w') \<Rightarrow>
                       (let processed = processedNodes + length batch
                        in (Inr processed,
                            onProgress
                              ((progressOf Embedding (roundEmbeddingPercent x processed (length nodes)))
                                 \<lparr> pg_nodesProcessed := Some processed,
                                    pg_totalNodes := Some (length nodes),
                                    pg_currentBatch := Some (batchIndex + 1),
                                    pg_totalBatches := Some totalBatches \<rparr>)
                              w')))))"

text \<open>
  The batch loop. With a batch size of \<open>0\<close> its bound is \<open>Infinity\<close> and it does not
  end: the value is then \<open>None\<close>.
\<close>

partial_function (option) batchLoop ::
  "('p, 'n) ext \<Rightarrow> ('db, 'n) executeQuery \<Rightarrow> EmbeddingConfig \<Rightarrow> 'n EmbeddableNode list \<Rightarrow>
   enat \<Rightarrow> nat \<Rightarrow> nat \<Rightarrow> ('db, 'p, 'n) world \<Rightarrow> ((thrown + unit) \<times> ('db, 'p, 'n) world) option" where
  "batchLoop x executeQuery finalConfig nodes totalBatches batchIndex processedNodes w =
     (if enat batchIndex < totalBatches then
        (case batchStep x executeQuery finalConfig nodes totalBatches batchIndex processedNodes w of
           (Inl e, w') \<Rightarrow> Some (Inl e, w')
         | (Inr processed, w') \<Rightarrow>
             batchLoop x executeQuery finalConfig nodes totalBatches (Suc batchIndex) processed w')
      else Some (Inr (), w))"

text \<open>
  The \<open>try\<close> block of \<open>runEmbeddingPipeline\<close>, in three parts: phases 3 and 4 (the
  batches, then the vector index), phase 2 with the early return on an empty result,
  and phase 1. \<open>loads\<close> says how the \<open>pipeline(...)\<close> calls awaited by \<open>initEmbedder\<close>
  settle (see \<open>awaitPromise\<close>).
\<close>

definition embedAndIndex ::
  "('p, 'n) ext \<Rightarrow> ('db, 'n) executeQuery \<Rightarrow> EmbeddingConfig \<Rightarrow> 'n EmbeddableNode list \<Rightarrow>
   ('db, 'p, 'n) world \<Rightarrow> ((thrown + unit) \<times> ('db, 'p, 'n) world) option" where
  "embedAndIndex x executeQuery finalConfig nodes w =
     (let total = totalBatchesOf (length nodes) (batchSize finalConfig);
          w1 = onProgress
                 ((progressOf Embedding (numLit x 20))
                    \<lparr> pg_nodesProcessed := Some 0,
                       pg_totalNodes := Some (length nodes),
                       pg_currentBatch := Some 0,
                       pg_totalBatches := Some total \<rparr>) w
      in case batchLoop x executeQuery finalConfig nodes total 0 0 w1 of
           None \<Rightarrow> None
         | Some (Inl e, w2) \<Rightarrow> Some (Inl e, w2)
         | Some (Inr r, w2) \<Rightarrow>
             (let w3 = onProgress
                         ((progressOf Indexing (numLit x 90))
                            \<lparr> pg_nodesProcessed := Some (length nodes),
                               pg_totalNodes := Some (length nodes) \<rparr>) w2;
                  w4 = createVectorIndex executeQuery w3
              in Some (Inr (),
                   onProgress
                     ((progressOf Ready (numLit x 100))
                        \<lparr> pg_nodesProcessed := Some (length nodes),
                           pg_totalNodes := Some (length nodes) \<rparr>) w4)))"

definition queryAndEmbed ::
  "('p, 'n) ext \<Rightarrow> ('db, 'n) executeQuery \<Rightarrow> EmbeddingConfig \<Rightarrow> ('db, 'p, 'n) world \<Rightarrow>
   ((thrown + unit) \<times> ('db, 'p, 'n) world) option" where
  "queryAndEmbed x executeQuery finalConfig w =
     (case queryEmbeddableNodes x executeQuery w of
        (Inl e, w1) \<Rightarrow> Some (Inl e, w1)
      | (Inr nodes, w1) \<Rightarrow>
          (if length nodes = 0 then
             Some (Inr (),
               onProgress
                 ((progressOf Ready (numLit x 100))
                    \<lparr> pg_nodesProcessed := Some 0, pg_totalNodes := Some 0 \<rparr>) w1)
           else embedAndIndex x executeQuery finalConfig nodes w1))"

definition pipelineTry ::
  "('p, 'n) ext \<Rightarrow> ('db, 'n) executeQuery \<Rightarrow> PartialConfig \<Rightarrow>
   ('n LoaderData list \<times> (string option + 'p)) list \<Rightarrow> ('db, 'p, 'n) world \<Rightarrow>
   ((thrown + unit) \<times> ('db, 'p, 'n) world) option" where
  "pipelineTry x executeQuery config loads w =
     (let finalConfig = mergeConfig (DEFAULT_EMBEDDING_CONFIG x) config;
          w0 = onProgress
                 ((progressOf Loading_model (numLit x 0))
                    \<lparr> pg_modelDownloadPercent := Some (JNum (numLit x 0)) \<rparr>) w
      in case awaitInitEmbedder x (asPartial finalConfig) loads (emb w0) of
           None \<Rightarrow> None
         | Some (r, modelProgress, s') \<Rightarrow>
             (let w1 = foldl (\<lambda>v mp. onProgress (modelProgressReport x mp) v)
                         (w0\<lparr> emb := s' \<rparr>) modelProgress
              in case r of
                   Inl e \<Rightarrow> Some (Inl e, w1)
                 | Inr inst \<Rightarrow>
                     queryAndEmbed x executeQuery finalConfig
                       (onProgress
                          ((progressOf Loading_model (numLit x 20))
                             \<lparr> pg_modelDownloadPercent := Some (JNum (numLit x 100)) \<rparr>) w1)))"

text \<open>
  \<open>runEmbeddingPipeline\<close>: the \<open>try\<close> block, and the \<open>catch\<close> block that reports the
  error and throws it again. \<open>None\<close>: the run does not return.
\<close>

definition runEmbeddingPipeline ::
  "('p, 'n) ext \<Rightarrow> ('db, 'n) executeQuery \<Rightarrow> PartialConfig \<Rightarrow>
   ('n LoaderData list \<times> (string option + 'p)) list \<Rightarrow> ('db, 'p, 'n) world \<Rightarrow>
   ((thrown + unit) \<times> ('db, 'p, 'n) world) option" where
  "runEmbeddingPipeline x executeQuery config loads w =
     (case pipelineTry x executeQuery config loads w of
        None \<Rightarrow> None
      | Some (Inr r, w') \<Rightarrow> Some (Inr r, w')
      | Some (Inl e, w') \<Rightarrow>
          Some (Inl e,
            onProgress ((progressOf Error (numLit x 0)) \<lparr> pg_error := Some (errorMessage x e) \<rparr>) w'))"

subsection \<open>Semantic search\<close>

definition notInitialized :: thrown where
  "notInitialized = Own ''Embedding model not initialized. Run embedding pipeline first.''"

definition semanticSearch ::
  "('p, 'n) ext \<Rightarrow> ('db, 'n) executeQuery \<Rightarrow> string \<Rightarrow> 'n \<Rightarrow> 'n \<Rightarrow> ('db, 'p, 'n) world \<Rightarrow>
   (thrown + 'n SemanticSearchResult list) \<times> ('db, 'p, 'n) world" where
  "semanticSearch x executeQuery query k maxDistance w =
     (if \<not> isEmbedderReady (emb w) then (Inl notInitialized, w)
      else
        (case embedText x (emb w) query of
           (Inl e, calls) \<Rightarrow> (Inl e, recordCalls calls w)
         | (Inr queryEmbedding, calls) \<Rightarrow>
             (case callQuery executeQuery (semanticSearchCypher x queryEmbedding k maxDistance)
                     (recordCalls calls w) of
                (Inl e, w') \<Rightarrow> (Inl e, w')
              | (Inr rows, w') \<Rightarrow> (mapRows rowToSearchResult rows, w'))))"

definition semanticSearchWithContext ::
  "('p, 'n) ext \<Rightarrow> ('db, 'n) executeQuery \<Rightarrow> string \<Rightarrow> 'n \<Rightarrow> 'n \<Rightarrow> ('db, 'p, 'n) world \<Rightarrow>
   (thrown + 'n jsrow list) \<times> ('db, 'p, 'n) world" where
  "semanticSearchWithContext x executeQuery query k hops w =
     (if \<not> isEmbedderReady (emb w) then (Inl notInitialized, w)
      else
        (case embedText x (emb w) query of
           (Inl e, calls) \<Rightarrow> (Inl e, recordCalls calls w)
         | (Inr queryEmbedding, calls) \<Rightarrow>
             callQuery executeQuery (semanticSearchWithContextCypher x queryEmbedding k hops)
               (recordCalls calls w)))"

section \<open>Definitions used to state the properties\<close>

text \<open>
  A field read as the claim words it: the named property unless it is \<open>null\<close> or
  \<open>undefined\<close>, in which case the element at the field's position.
\<close>

definition namedElsePositional :: "'n jsobj \<Rightarrow> string \<Rightarrow> nat \<Rightarrow> 'n jsval" where
  "namedElsePositional row name i =
     (if getProp row name \<noteq> JNull \<and> getProp row name \<noteq> JUndefined then getProp row name
      else elemAt row i)"

text \<open>Whether an event is a call of \<open>disposeEmbedder\<close>.\<close>

fun isCallDispose :: "'p emb_event \<Rightarrow> bool" where
  "isCallDispose (CallDispose d) = True"
| "isCallDispose e = False"

text \<open>
  The invariant of the embedder module's histories without a \<open>disposeEmbedder\<close> call:
  no disposal is suspended, at most one initialisation is, and while one is, the flag is
  set, \<open>initPromise\<close> is its promise and no instance exists.
\<close>

definition emb_inv :: "'p embedder \<Rightarrow> bool" where
  "emb_inv s =
     (disposing s = 0 \<and>
      (case running s of
         [] \<Rightarrow> True
       | [t] \<Rightarrow> isInitializing s \<and> initPromise s = Some (t_promise t) \<and> embedderInstance s = None
       | _ \<Rightarrow> False))"

section \<open>SymbolTable and CallResolver\<close>

text \<open>
  Modelled from the spec: the SymbolTable and the CallResolver of the ingestion
  pipeline are not among the source files; the definitions of this section follow
  sections 3, 4.4 and 4.6 of the specification. The file-scoped index maps a file path
  to a map from symbol names to node ids, the last registration of a name in a file
  winning; the global index maps a symbol name to its definitions in registration
  order.
\<close>

record SymbolDefinition =
  sd_name :: string
  sd_nodeId :: string
  sd_filePath :: string
  sd_kind :: string

text \<open>
  Modelled from the spec: the two indexes of the SymbolTable (section 4.4).
\<close>

record SymbolTable =
  fileIndex :: "string \<Rightarrow> (string \<rightharpoonup> string)"
  globalIndex :: "string \<Rightarrow> SymbolDefinition list"

text \<open>
  Modelled from the spec: the SymbolTable at the start of a run, both indexes empty.
\<close>

definition emptySymbolTable :: SymbolTable where
  "emptySymbolTable = \<lparr> fileIndex = (\<lambda>f. Map.empty), globalIndex = (\<lambda>n. []) \<rparr>"

text \<open>Modelled from the spec: \<open>register(filePath, name, nodeId, kind)\<close>, section 4.4.\<close>

definition register :: "string \<Rightarrow> string \<Rightarrow> string \<Rightarrow> string \<Rightarrow> SymbolTable \<Rightarrow> SymbolTable" where
  "register filePath name nodeId kind st =
     st\<lparr> fileIndex := (fileIndex st)(filePath := (fileIndex st filePath)(name \<mapsto> nodeId)),
        globalIndex := (globalIndex st)(name := globalIndex st name @
          [\<lparr> sd_name = name, sd_nodeId = nodeId, sd_filePath = filePath, sd_kind = kind \<rparr>]) \<rparr>"

text \<open>Modelled from the spec: \<open>lookupLocal\<close> (exact match or miss) and \<open>lookupGlobal\<close>.\<close>

definition lookupLocal :: "SymbolTable \<Rightarrow> string \<Rightarrow> string \<Rightarrow> string option" where
  "lookupLocal st filePath name = fileIndex st filePath name"

text \<open>
  Modelled from the spec: \<open>lookupGlobal(name)\<close>, the ordered list of definitions, possibly empty.
\<close>

definition lookupGlobal :: "SymbolTable \<Rightarrow> string \<Rightarrow> SymbolDefinition list" where
  "lookupGlobal st name = globalIndex st name"

text \<open>
  Modelled from the spec: the three tiers of section 4.6, each a lookup that matches or
  misses. The import maps give, per file, the target file of each alias.
\<close>

datatype tier = ImportMapTier | LocalScopeTier | GlobalFallbackTier

text \<open>
  Modelled from the spec: the ImportMap of each file (section 3), alias name to target file path.
\<close>

type_synonym ImportMaps = "string \<Rightarrow> (string \<rightharpoonup> string)"

text \<open>
  Modelled from the spec: tier 1 of section 4.6, the alias looked up in the target file's local index.
\<close>

definition importMapLookup :: "SymbolTable \<Rightarrow> ImportMaps \<Rightarrow> string \<Rightarrow> string \<Rightarrow> string option" where
  "importMapLookup st importMaps calleeName enclosingFile =
     (case importMaps enclosingFile calleeName of
        None \<Rightarrow> None
      | Some targetFile \<Rightarrow> lookupLocal st targetFile calleeName)"

text \<open>
  Modelled from the spec: tier 2 of section 4.6, \<open>lookupLocal(enclosingFile, calleeName)\<close>.
\<close>

definition localScopeLookup :: "SymbolTable \<Rightarrow> string \<Rightarrow> string \<Rightarrow> string option" where
  "localScopeLookup st calleeName enclosingFile = lookupLocal st enclosingFile calleeName"

text \<open>
  Modelled from the spec: tier 3 of section 4.6, the first (earliest registered) global definition.
\<close>

definition globalFallbackLookup :: "SymbolTable \<Rightarrow> string \<Rightarrow> string option" where
  "globalFallbackLookup st calleeName =
     (case lookupGlobal st calleeName of [] \<Rightarrow> None | d # ds \<Rightarrow> Some (sd_nodeId d))"

text \<open>
  Modelled from the spec: resolution of one call expression \<open>(calleeName, enclosingFile)\<close>
  in the fixed priority of section 4.6, stopping at the first match; no match drops the
  call.
\<close>

definition resolveCall ::
  "SymbolTable \<Rightarrow> ImportMaps \<Rightarrow> string \<Rightarrow> string \<Rightarrow> (string \<times> tier) option" where
  "resolveCall st importMaps calleeName enclosingFile =
     (case importMapLookup st importMaps calleeName enclosingFile of
        Some nodeId \<Rightarrow> Some (nodeId, ImportMapTier)
      | None \<Rightarrow>
          (case localScopeLookup st calleeName enclosingFile of
             Some nodeId \<Rightarrow> Some (nodeId, LocalScopeTier)
           | None \<Rightarrow>
               (case globalFallbackLookup st calleeName of
                  Some nodeId \<Rightarrow> Some (nodeId, GlobalFallbackTier)
                | None \<Rightarrow> None)))"

text \<open>
  Modelled from the spec: a SymbolTable built by registrations \<open>(filePath, name, nodeId, kind)\<close> in order, as Parse does.
\<close>

definition registerAll :: "(string \<times> string \<times> string \<times> string) list \<Rightarrow> SymbolTable" where
  "registerAll regs =
     foldl (\<lambda>st (filePath, name, nodeId, kind). register filePath name nodeId kind st)
       emptySymbolTable regs"

section \<open>The AST cache\<close>

text \<open>
  Modelled from the spec: the AST cache is not among the source files; the definitions
  of this section follow sections 3 and 4.3 of the specification. An entry maps a
  file path to a tree handle and a recency marker; the cache has a capacity, a clock
  from which markers are taken, and (kept by the model) the list of handles whose
  release operation it has invoked, in order.
\<close>

record 't CacheEntry =
  ce_path :: string
  ce_tree :: 't
  ce_recency :: nat

text \<open>
  Modelled from the spec: the cache state (section 4.3), with the log of releases kept by the model.
\<close>

record 't ASTCache =
  capacity :: nat
  entries :: "'t CacheEntry list"
  clock :: nat
  released :: "'t list"

text \<open>
  Modelled from the spec: the empty cache of capacity \<open>C\<close> a run starts with.
\<close>

definition emptyCache :: "nat \<Rightarrow> 't ASTCache" where
  "emptyCache C = \<lparr> capacity = C, entries = [], clock = 0, released = [] \<rparr>"

text \<open>
  Modelled from the spec: \<open>evictLRU()\<close> removes the entry with the least recency
  marker and invokes its release, in one step.
\<close>

definition evictLRU :: "'t ASTCache \<Rightarrow> 't ASTCache" where
  "evictLRU c =
     (if entries c = [] then c
      else
        (let victim = arg_min_list ce_recency (entries c)
         in c\<lparr> entries := remove1 victim (entries c),
               released := released c @ [ce_tree victim] \<rparr>))"

text \<open>
  Modelled from the spec: \<open>get(path)\<close> gives the tree or a miss; a hit makes the entry
  the most recently used.
\<close>

definition cacheGet :: "string \<Rightarrow> 't ASTCache \<Rightarrow> 't option \<times> 't ASTCache" where
  "cacheGet path c =
     (case find (\<lambda>e. ce_path e = path) (entries c) of
        None \<Rightarrow> (None, c)
      | Some hit \<Rightarrow>
          (Some (ce_tree hit),
           c\<lparr> entries :=
                 map (\<lambda>e. if ce_path e = path then e\<lparr> ce_recency := clock c \<rparr> else e) (entries c),
               clock := Suc (clock c) \<rparr>))"

text \<open>
  Modelled from the spec: \<open>set(path, tree)\<close>. A path that is not cached is admitted as
  a new entry, after \<open>evictLRU\<close> when the cache is at capacity. The spec does not say
  what \<open>set\<close> does for a path already cached; here its entry takes the new tree and the
  newest marker, the replaced handle is released, and no entry is admitted.
\<close>

definition cacheSet :: "string \<Rightarrow> 't \<Rightarrow> 't ASTCache \<Rightarrow> 't ASTCache" where
  "cacheSet path tree c =
     (case find (\<lambda>e. ce_path e = path) (entries c) of
        Some old \<Rightarrow>
          c\<lparr> entries :=
                map (\<lambda>e. if ce_path e = path
                          then \<lparr> ce_path = path, ce_tree = tree, ce_recency = clock c \<rparr> else e)
                  (entries c),
              clock := Suc (clock c),
              released := released c @ (if ce_tree old = tree then [] else [ce_tree old]) \<rparr>
      | None \<Rightarrow>
          (let c' = (if capacity c \<le> length (entries c) then evictLRU c else c)
           in c'\<lparr> entries := entries c' @
                       [\<lparr> ce_path = path, ce_tree = tree, ce_recency = clock c \<rparr>],
                  clock := Suc (clock c) \<rparr>))"

text \<open>Modelled from the spec: \<open>releaseAll()\<close> releases every cached handle.\<close>

definition releaseAll :: "'t ASTCache \<Rightarrow> 't ASTCache" where
  "releaseAll c = c\<lparr> entries := [], released := released c @ map ce_tree (entries c) \<rparr>"

text \<open>
  Modelled from the spec: the operations \<open>get(path)\<close> and \<open>set(path, tree)\<close> of the contract, as data.
\<close>

datatype 't cacheOp = OpGet string | OpSet string 't

text \<open>
  Modelled from the spec: one operation applied to the cache.
\<close>

fun applyOp :: "'t ASTCache \<Rightarrow> 't cacheOp \<Rightarrow> 't ASTCache" where
  "applyOp c (OpGet path) = snd (cacheGet path c)"
| "applyOp c (OpSet path tree) = cacheSet path tree c"

text \<open>
  Modelled from the spec: a sequence of \<open>get\<close> and \<open>set\<close> operations on an empty cache of capacity \<open>C\<close>.
\<close>

definition runOps :: "nat \<Rightarrow> 't cacheOp list \<Rightarrow> 't ASTCache" where
  "runOps C ops = foldl applyOp (emptyCache C) ops"

text \<open>
  Modelled from the spec: the invariant of the cache. Paths and markers are pairwise distinct,
  every marker is older than the clock, and the entries fit the (positive) capacity.
\<close>

definition cache_inv :: "'t ASTCache \<Rightarrow> bool" where
  "cache_inv c =
     (distinct (map ce_path (entries c)) \<and> distinct (map ce_recency (entries c)) \<and>
      list_all (\<lambda>e. ce_recency e < clock c) (entries c) \<and>
      0 < capacity c \<and> length (entries c) \<le> capacity c)"

section \<open>The ingestion pipeline as a sequence of graph operations\<close>

text \<open>
  Modelled from the spec: the ingestion pipeline (Extractor, StructureBuilder, the
  Parse, Imports and Calls phases and their orchestration) is not among the source
  files; the definitions of this section follow sections 3, 4.2 and 4.4 to 4.7 of the
  specification. A run is modelled by the sequence of node and edge creations it
  performs, in order. The parse capability and the language-specific extraction of
  declarations, import specifiers and calls are external, and the spec leaves the
  derivation of node ids open: all are parameters.
\<close>

datatype label = Folder | File | Function | Class | Interface | Method

text \<open>
  Modelled from the spec: the edge types of section 3.
\<close>

datatype relType = CONTAINS | DEFINES | IMPORTS | CALLS

text \<open>
  Modelled from the spec: CodeNode of section 3.
\<close>

record CodeNode =
  n_id :: string
  n_label :: label
  n_name :: string
  n_filePath :: string
  n_startLine :: nat
  n_endLine :: nat
  n_content :: string

text \<open>
  Modelled from the spec: CodeRelation of section 3, with the node ids of its endpoints.
\<close>

record CodeRelation =
  r_from :: string
  r_to :: string
  r_type :: relType

text \<open>
  Modelled from the spec: the two ways a run changes the graph, creating a node or an edge.
\<close>

datatype graphOp = AddNode CodeNode | AddEdge CodeRelation

text \<open>
  Modelled from the spec: a declaration extracted from a parsed file (section 4.4), as the
  external parse capability gives it.
\<close>

record Declaration =
  dc_name :: string
  dc_label :: label
  dc_kind :: string
  dc_startLine :: nat
  dc_endLine :: nat
  dc_content :: string

text \<open>
  Modelled from the spec: what the pipeline takes from outside. The extraction of
  declarations (none for a file that is skipped), import specifiers with their aliases and
  callee names of a file (path and content), the supported extensions, and the derivation
  of node ids.
\<close>

record capabilities =
  declarationsOf :: "string \<Rightarrow> string \<Rightarrow> Declaration list option"
  importsOf :: "string \<Rightarrow> string \<Rightarrow> (string \<times> string) list"
  callsOf :: "string \<Rightarrow> string \<Rightarrow> string list"
  extensions :: "string list"
  folderId :: "string \<Rightarrow> string"
  fileId :: "string \<Rightarrow> string"
  symbolId :: "string \<Rightarrow> Declaration \<Rightarrow> string"

text \<open>
  Modelled from the spec: the node and edge sets a sequence of operations builds, and
  the invariant of section 3 read along the sequence: each edge is created when both
  its endpoints are ids of nodes created before it (\<open>present\<close> holds the ids present at
  the start).
\<close>

fun nodesOf :: "graphOp list \<Rightarrow> CodeNode list" where
  "nodesOf [] = []"
| "nodesOf (AddNode n # ops) = n # nodesOf ops"
| "nodesOf (AddEdge e # ops) = nodesOf ops"

text \<open>
  Modelled from the spec: the edge set a sequence of operations builds.
\<close>

fun edgesOf :: "graphOp list \<Rightarrow> CodeRelation list" where
  "edgesOf [] = []"
| "edgesOf (AddNode n # ops) = edgesOf ops"
| "edgesOf (AddEdge e # ops) = e # edgesOf ops"

text \<open>
  Modelled from the spec: the invariant of section 3 along a sequence of operations, from the
  ids \<open>present\<close> at its start.
\<close>

fun endpointsPresent :: "string set \<Rightarrow> graphOp list \<Rightarrow> bool" where
  "endpointsPresent present [] = True"
| "endpointsPresent present (AddNode n # ops) = endpointsPresent (insert (n_id n) present) ops"
| "endpointsPresent present (AddEdge e # ops) =
     (r_from e \<in> present \<and> r_to e \<in> present \<and> endpointsPresent present ops)"

subsection \<open>Structure\<close>

text \<open>
  Modelled from the spec: a path is split into segments at \<open>/\<close>; its folder prefixes
  are the joined proper prefixes of its segments, the first being the root \<open>''''\<close>.
\<close>

fun splitPath :: "string \<Rightarrow> string list" where
  "splitPath [] = [[]]"
| "splitPath (c # cs) =
     (if c = CHR ''/'' then [] # splitPath cs
      else (case splitPath cs of [] \<Rightarrow> [[c]] | s # ss \<Rightarrow> (c # s) # ss))"

text \<open>
  Modelled from the spec: the folder prefixes of a path (section 4.2), the root first.
\<close>

definition folderPrefixes :: "string \<Rightarrow> string list" where
  "folderPrefixes path = map (joinWith ''/'') (prefixes (butlast (splitPath path)))"

text \<open>
  Modelled from the spec: the Folder node of a prefix.
\<close>

definition folderNode :: "capabilities \<Rightarrow> string \<Rightarrow> CodeNode" where
  "folderNode cp dir =
     \<lparr> n_id = folderId cp dir, n_label = Folder, n_name = last (splitPath dir),
       n_filePath = dir, n_startLine = 0, n_endLine = 0, n_content = [] \<rparr>"

text \<open>
  Modelled from the spec: the File node of a path.
\<close>

definition fileNode :: "capabilities \<Rightarrow> string \<Rightarrow> string \<Rightarrow> CodeNode" where
  "fileNode cp path content =
     \<lparr> n_id = fileId cp path, n_label = File, n_name = last (splitPath path),
       n_filePath = path, n_startLine = 0, n_endLine = 0, n_content = content \<rparr>"

text \<open>
  Modelled from the spec: an edge of a type between two node ids.
\<close>

definition edge :: "relType \<Rightarrow> string \<Rightarrow> string \<Rightarrow> CodeRelation" where
  "edge ty a b = \<lparr> r_from = a, r_to = b, r_type = ty \<rparr>"

text \<open>
  Modelled from the spec: the walk along the folder prefixes of one path. A prefix not
  seen before gets a Folder node and, unless it is the root, a CONTAINS edge from its
  parent prefix; \<open>seen\<close> is the memo of prefixes.
\<close>

fun walkFolders ::
  "capabilities \<Rightarrow> string option \<Rightarrow> string list \<Rightarrow> string list \<Rightarrow> graphOp list \<times> string list" where
  "walkFolders cp parent [] seen = ([], seen)"
| "walkFolders cp parent (d # ds) seen =
     (let here = (if d \<in> set seen then []
                  else AddNode (folderNode cp d) #
                       (case parent of
                          None \<Rightarrow> []
                        | Some p \<Rightarrow> [AddEdge (edge CONTAINS (folderId cp p) (folderId cp d))]));
          (rest, seen') = walkFolders cp (Some d) ds (if d \<in> set seen then seen else d # seen)
      in (here @ rest, seen'))"

text \<open>
  Modelled from the spec: one path of the Structure phase: its folders, then a File
  node for the final segment and the CONTAINS edge from its parent folder.
\<close>

definition structurePath ::
  "capabilities \<Rightarrow> string \<times> string \<Rightarrow> string list \<Rightarrow> graphOp list \<times> string list" where
  "structurePath cp file seen =
     (case walkFolders cp None (folderPrefixes (fst file)) seen of
        (ops, seen') \<Rightarrow>
          (ops @ [AddNode (fileNode cp (fst file) (snd file)),
                  AddEdge (edge CONTAINS (folderId cp (last (folderPrefixes (fst file))))
                            (fileId cp (fst file)))],
           seen'))"

text \<open>
  Modelled from the spec: the Structure phase over the ordered path sequence.
\<close>

fun structureOps ::
  "capabilities \<Rightarrow> (string \<times> string) list \<Rightarrow> string list \<Rightarrow> graphOp list" where
  "structureOps cp [] seen = []"
| "structureOps cp (file # files) seen =
     (case structurePath cp file seen of
        (ops, seen') \<Rightarrow> ops @ structureOps cp files seen')"

subsection \<open>Parse\<close>

text \<open>
  Modelled from the spec: a file the parse capability rejects is skipped by Parse,
  Imports and Calls. Each declaration of a parsed file gets a node, a DEFINES edge
  from its file, and, right after, its registration in the SymbolTable.
\<close>

definition parsedFiles :: "capabilities \<Rightarrow> (string \<times> string) list \<Rightarrow> (string \<times> string) list" where
  "parsedFiles cp files = filter (\<lambda>(path, content). declarationsOf cp path content \<noteq> None) files"

text \<open>
  Modelled from the spec: the declarations of a file, none for a skipped file.
\<close>

definition declarations :: "capabilities \<Rightarrow> string \<times> string \<Rightarrow> Declaration list" where
  "declarations cp file =
     (case declarationsOf cp (fst file) (snd file) of None \<Rightarrow> [] | Some ds \<Rightarrow> ds)"

text \<open>
  Modelled from the spec: the node of a declaration (Function, Class, Interface or Method).
\<close>

definition symbolNode :: "capabilities \<Rightarrow> string \<Rightarrow> Declaration \<Rightarrow> CodeNode" where
  "symbolNode cp path d =
     \<lparr> n_id = symbolId cp path d, n_label = dc_label d, n_name = dc_name d, n_filePath = path,
       n_startLine = dc_startLine d, n_endLine = dc_endLine d, n_content = dc_content d \<rparr>"

text \<open>
  Modelled from the spec: the Parse phase. Per parsed file and declaration, the node and then
  the DEFINES edge from the file.
\<close>

definition parseOps :: "capabilities \<Rightarrow> (string \<times> string) list \<Rightarrow> graphOp list" where
  "parseOps cp files =
     concat (map (\<lambda>file. concat (map (\<lambda>d.
         [AddNode (symbolNode cp (fst file) d),
          AddEdge (edge DEFINES (fileId cp (fst file)) (symbolId cp (fst file) d))])
       (declarations cp file))) (parsedFiles cp files))"

text \<open>
  Modelled from the spec: the registrations Parse makes, one per declaration, in file-processing
  order.
\<close>

definition registrations ::
  "capabilities \<Rightarrow> (string \<times> string) list \<Rightarrow> (string \<times> string \<times> string \<times> string) list" where
  "registrations cp files =
     concat (map (\<lambda>file. map (\<lambda>d. (fst file, dc_name d, symbolId cp (fst file) d, dc_kind d))
       (declarations cp file)) (parsedFiles cp files))"

subsection \<open>Imports\<close>

text \<open>
  Modelled from the spec: the fixed, ordered candidate list of a specifier (the exact
  path; the path with each supported extension; the path with \<open>/index\<close> and each
  supported extension); the first candidate in the path set wins.
\<close>

definition candidates :: "string list \<Rightarrow> string \<Rightarrow> string list" where
  "candidates exts specifier =
     specifier # map (\<lambda>ext. specifier @ ext) exts @ map (\<lambda>ext. specifier @ ''/index'' @ ext) exts"

text \<open>
  Modelled from the spec: the first candidate that is in the path set, if any.
\<close>

definition resolveImport :: "string list \<Rightarrow> string list \<Rightarrow> string \<Rightarrow> string option" where
  "resolveImport paths exts specifier = find (\<lambda>c. c \<in> set paths) (candidates exts specifier)"

text \<open>
  Modelled from the spec: every resolved specifier of a parsed file gives one IMPORTS
  edge and one entry of that file's import map; an unresolved one gives neither.
\<close>

definition resolvedImports ::
  "capabilities \<Rightarrow> string list \<Rightarrow> string \<times> string \<Rightarrow> (string \<times> string) list" where
  "resolvedImports cp paths file =
     concat (map (\<lambda>(specifier, alias).
         (case resolveImport paths (extensions cp) specifier of
            None \<Rightarrow> []
          | Some target \<Rightarrow> [(alias, target)]))
       (importsOf cp (fst file) (snd file)))"

text \<open>
  Modelled from the spec: the Imports phase, one IMPORTS edge per resolved specifier.
\<close>

definition importOps :: "capabilities \<Rightarrow> (string \<times> string) list \<Rightarrow> graphOp list" where
  "importOps cp files =
     concat (map (\<lambda>file. map (\<lambda>(alias, target).
         AddEdge (edge IMPORTS (fileId cp (fst file)) (fileId cp target)))
       (resolvedImports cp (map fst files) file)) (parsedFiles cp files))"

text \<open>
  Modelled from the spec: the ImportMap of each parsed file, built from its resolved
  specifiers (a later entry for an alias replaces an earlier one).
\<close>

definition importMapsOf :: "capabilities \<Rightarrow> (string \<times> string) list \<Rightarrow> ImportMaps" where
  "importMapsOf cp files path =
     (case find (\<lambda>file. fst file = path) (parsedFiles cp files) of
        None \<Rightarrow> Map.empty
      | Some file \<Rightarrow> map_of (rev (resolvedImports cp (map fst files) file)))"

subsection \<open>Calls, and the whole run\<close>

text \<open>
  Modelled from the spec: each call expression of a parsed file is resolved by
  \<open>resolveCall\<close>; a match gives one CALLS edge from the calling file, no match gives
  nothing.
\<close>

definition callOps :: "capabilities \<Rightarrow> (string \<times> string) list \<Rightarrow> graphOp list" where
  "callOps cp files =
     concat (map (\<lambda>file. concat (map (\<lambda>calleeName.
         (case resolveCall (registerAll (registrations cp files)) (importMapsOf cp files)
                 calleeName (fst file) of
            None \<Rightarrow> []
          | Some (nodeId, t) \<Rightarrow> [AddEdge (edge CALLS (fileId cp (fst file)) nodeId)]))
       (callsOf cp (fst file) (snd file)))) (parsedFiles cp files))"

text \<open>
  Modelled from the spec: the phases in their strict order, on the extracted files
  (paths with contents): Structure, Parse, Imports, Calls.
\<close>

definition pipelineOps :: "capabilities \<Rightarrow> (string \<times> string) list \<Rightarrow> graphOp list" where
  "pipelineOps cp files =
     structureOps cp files [] @ parseOps cp files @ importOps cp files @ callOps cp files"

text \<open>
  Modelled from the spec: the ids of the nodes a sequence of operations creates.
\<close>

definition idsOf :: "graphOp list \<Rightarrow> string set" where
  "idsOf ops = n_id ` set (nodesOf ops)"

section \<open>Properties: the row mappings\<close>

lemma showNat_digits:
  "showNat 0 = ''0''" "showNat 1 = ''1''" "showNat 2 = ''2''" "showNat 3 = ''3''"
  "showNat 4 = ''4''" "showNat 5 = ''5''" "showNat 6 = ''6''"
  by (simp_all add: digit_def)

lemma nullish_iff: "nullish v \<longleftrightarrow> v = JNull \<or> v = JUndefined"
  by (cases v) simp_all

lemma coalesce_named: "coalesce (getProp row name) (elemAt row i) = namedElsePositional row name i"
  by (simp add: coalesce_def namedElsePositional_def nullish_iff)

lemma mapRows_objects:
  "(\<And>r. f (RowObj r) = Inr (g r)) \<Longrightarrow> mapRows f (map RowObj rs) = Inr (map g rs)"
  by (induction rs) simp_all

lemma queryEmbeddableNodes_rows:
  "executeQuery (embeddableNodesCypher (EMBEDDABLE_LABELS x)) (db w) = (Inr rows, d) \<Longrightarrow>
   fst (queryEmbeddableNodes x executeQuery w) = mapRows rowToEmbeddableNode rows"
  by (simp add: queryEmbeddableNodes_def callQuery_def Let_def)

lemma semanticSearch_rows:
  "embedderInstance (emb w) = Some inst \<Longrightarrow> callEmbedder x inst [query] = Inr queryVec \<Longrightarrow>
   executeQuery (semanticSearchCypher x (newFloat32Array x queryVec) k maxDistance) (db w) = (Inr rows, d) \<Longrightarrow>
   fst (semanticSearch x executeQuery query k maxDistance w) = mapRows rowToSearchResult rows"
  by (simp add: semanticSearch_def isEmbedderReady_def embedText_def getEmbedder_def
      callQuery_def recordCalls_def Let_def)

text \<open>
  Claim C2. In \<open>queryEmbeddableNodes\<close> and in \<open>semanticSearch\<close>, every field of the
  record built from a row is the row's named property when that is neither \<open>null\<close> nor
  \<open>undefined\<close>, and otherwise the row's element at the field's fixed position (\<open>id\<close> or
  \<open>nodeId\<close> at 0, \<open>name\<close> at 1, \<open>label\<close> at 2, \<open>filePath\<close> at 3, \<open>content\<close> or \<open>distance\<close>
  at 4, \<open>startLine\<close> at 5, \<open>endLine\<close> at 6); \<open>content\<close> is the empty string when both are
  absent. Mapping a list of rows maps each row so, and that list is what
  \<open>queryEmbeddableNodes\<close> and \<open>semanticSearch\<close> return when \<open>executeQuery\<close> returns the
  rows.
\<close>

theorem row_mapping_fallback:
  "rowToEmbeddableNode (RowObj row) = Inr
     \<lparr> en_id = namedElsePositional row ''id'' 0,
       en_name = namedElsePositional row ''name'' 1,
       en_label = namedElsePositional row ''label'' 2,
       en_filePath = namedElsePositional row ''filePath'' 3,
       en_content = (if nullish (namedElsePositional row ''content'' 4) then JStr []
                     else namedElsePositional row ''content'' 4),
       en_startLine = namedElsePositional row ''startLine'' 5,
       en_endLine = namedElsePositional row ''endLine'' 6 \<rparr> \<and>
   rowToSearchResult (RowObj row) = Inr
     \<lparr> sr_nodeId = namedElsePositional row ''nodeId'' 0,
       sr_name = namedElsePositional row ''name'' 1,
       sr_label = namedElsePositional row ''label'' 2,
       sr_filePath = namedElsePositional row ''filePath'' 3,
       sr_distance = namedElsePositional row ''distance'' 4,
       sr_startLine = namedElsePositional row ''startLine'' 5,
       sr_endLine = namedElsePositional row ''endLine'' 6 \<rparr> \<and>
   mapRows rowToEmbeddableNode (map RowObj rows) =
     Inr (map (\<lambda>r. projr (rowToEmbeddableNode (RowObj r))) rows) \<and>
   mapRows rowToSearchResult (map RowObj rows) =
     Inr (map (\<lambda>r. projr (rowToSearchResult (RowObj r))) rows) \<and>
   (executeQuery (embeddableNodesCypher (EMBEDDABLE_LABELS x)) (db w) = (Inr (map RowObj rows), d) \<longrightarrow>
      fst (queryEmbeddableNodes x executeQuery w) =
        Inr (map (\<lambda>r. projr (rowToEmbeddableNode (RowObj r))) rows)) \<and>
   (embedderInstance (emb w) = Some inst \<and> callEmbedder x inst [query] = Inr queryVec \<and>
    executeQuery (semanticSearchCypher x (newFloat32Array x queryVec) k maxDistance) (db w) = (Inr (map RowObj rows), d) \<longrightarrow>
      fst (semanticSearch x executeQuery query k maxDistance w) =
        Inr (map (\<lambda>r. projr (rowToSearchResult (RowObj r))) rows))"
proof -
  have a: "mapRows rowToEmbeddableNode (map RowObj rows) =
     Inr (map (\<lambda>r. projr (rowToEmbeddableNode (RowObj r))) rows)"
    by (rule mapRows_objects) simp
  have b: "mapRows rowToSearchResult (map RowObj rows) =
     Inr (map (\<lambda>r. projr (rowToSearchResult (RowObj r))) rows)"
    by (rule mapRows_objects) simp
  have c: "fst (queryEmbeddableNodes x executeQuery w) = mapRows rowToEmbeddableNode (map RowObj rows)"
    if "executeQuery (embeddableNodesCypher (EMBEDDABLE_LABELS x)) (db w) = (Inr (map RowObj rows), d)"
    using that by (rule queryEmbeddableNodes_rows)
  have d: "fst (semanticSearch x executeQuery query k maxDistance w) =
      mapRows rowToSearchResult (map RowObj rows)"
    if "embedderInstance (emb w) = Some inst" "callEmbedder x inst [query] = Inr queryVec"
      "executeQuery (semanticSearchCypher x (newFloat32Array x queryVec) k maxDistance) (db w) = (Inr (map RowObj rows), d)"
    using that by (rule semanticSearch_rows)
  have fields: "rowToEmbeddableNode (RowObj row) = Inr
     \<lparr> en_id = namedElsePositional row ''id'' 0,
       en_name = namedElsePositional row ''name'' 1,
       en_label = namedElsePositional row ''label'' 2,
       en_filePath = namedElsePositional row ''filePath'' 3,
       en_content = (if nullish (namedElsePositional row ''content'' 4) then JStr []
                     else namedElsePositional row ''content'' 4),
       en_startLine = namedElsePositional row ''startLine'' 5,
       en_endLine = namedElsePositional row ''endLine'' 6 \<rparr> \<and>
   rowToSearchResult (RowObj row) = Inr
     \<lparr> sr_nodeId = namedElsePositional row ''nodeId'' 0,
       sr_name = namedElsePositional row ''name'' 1,
       sr_label = namedElsePositional row ''label'' 2,
       sr_filePath = namedElsePositional row ''filePath'' 3,
       sr_distance = namedElsePositional row ''distance'' 4,
       sr_startLine = namedElsePositional row ''startLine'' 5,
       sr_endLine = namedElsePositional row ''endLine'' 6 \<rparr>"
    by (simp add: coalesce_named) (simp add: coalesce_def)
  show ?thesis
    using fields a b c d by (simp only:) blast
qed

text \<open>
  A row with a named \<open>id\<close> and \<open>startLine\<close>, a \<open>null\<close> \<open>name\<close> and seven positional
  elements, the one at position 4 \<open>undefined\<close>; and both functions on a database that
  returns this one row.
\<close>

theorem row_mapping_fallback_witness:
  "(let row = [(''id'', JStr ''Function:a.ts:foo''), (''name'', JNull), (''startLine'', JNum (3::nat))]
              @ arrayObj [JStr ''zero'', JStr ''foo'', JStr ''Function'', JStr ''a.ts'', JUndefined,
                          JNum 4, JNum 9];
        node = \<lparr> en_id = JStr ''Function:a.ts:foo'', en_name = JStr ''foo'',
                 en_label = JStr ''Function'', en_filePath = JStr ''a.ts'', en_content = JStr [],
                 en_startLine = JNum 3, en_endLine = JNum 9 \<rparr>;
        x = \<lparr> DEFAULT_EMBEDDING_CONFIG =
                  \<lparr> modelId = ''Snowflake/snowflake-arctic-embed-xs'', batchSize = 16,
                    dimensions = 384, device = wasm \<rparr>,
                EMBEDDABLE_LABELS = [''Function'', ''Class''],
                callEmbedder = (\<lambda>inst texts. Inr [1, 2]),
                generateBatchEmbeddingTexts = (\<lambda>nodes c. []),
                showNum = (\<lambda>n. ''0''), numLit = (\<lambda>n. n), isTruthyNum = (\<lambda>n. n \<noteq> 0),
                roundModelPercent = (\<lambda>v. 0), roundEmbeddingPercent = (\<lambda>p t. 0),
                typeErrorMessage = ''TypeError'', toFloat32 = (\<lambda>n. n) \<rparr>;
        w = \<lparr> db = (), emb = emb_initial\<lparr> embedderInstance := Some (5::nat) \<rparr>,
              issued = [], reported = [], modelCalls = [] \<rparr>
    in rowToEmbeddableNode (RowObj row) = Inr node \<and>
       fst (queryEmbeddableNodes x (\<lambda>cypher d. (Inr [RowObj row], d)) w) = Inr [node] \<and>
       map sr_name (projr (fst (semanticSearch x (\<lambda>cypher d. (Inr [RowObj row], d)) ''foo'' 10 1 w)))
         = [JStr ''foo''])"
proof -
  define row :: "nat jsobj" where
    "row = [(''id'', JStr ''Function:a.ts:foo''), (''name'', JNull), (''startLine'', JNum (3::nat))]
              @ arrayObj [JStr ''zero'', JStr ''foo'', JStr ''Function'', JStr ''a.ts'', JUndefined,
                          JNum 4, JNum 9]"
  define x :: "(nat, nat) ext" where "x = \<lparr> DEFAULT_EMBEDDING_CONFIG =
                  \<lparr> modelId = ''Snowflake/snowflake-arctic-embed-xs'', batchSize = 16,
                    dimensions = 384, device = wasm \<rparr>,
                EMBEDDABLE_LABELS = [''Function'', ''Class''],
                callEmbedder = (\<lambda>inst texts. Inr [1, 2]),
                generateBatchEmbeddingTexts = (\<lambda>nodes c. []),
                showNum = (\<lambda>n. ''0''), numLit = (\<lambda>n. n), isTruthyNum = (\<lambda>n. n \<noteq> 0),
                roundModelPercent = (\<lambda>v. 0), roundEmbeddingPercent = (\<lambda>p t. 0),
                typeErrorMessage = ''TypeError'', toFloat32 = (\<lambda>n. n) \<rparr>"
  define w :: "(unit, nat, nat) world" where
    "w = \<lparr> db = (), emb = emb_initial\<lparr> embedderInstance := Some (5::nat) \<rparr>,
              issued = [], reported = [], modelCalls = [] \<rparr>"
  define executeQuery :: "(unit, nat) executeQuery" where
    "executeQuery = (\<lambda>cypher d. (Inr [RowObj row], d))"
  have r: "row = [(''id'', JStr ''Function:a.ts:foo''), (''name'', JNull), (''startLine'', JNum 3),
       (''0'', JStr ''zero''), (''1'', JStr ''foo''), (''2'', JStr ''Function''),
       (''3'', JStr ''a.ts''), (''4'', JUndefined), (''5'', JNum 4), (''6'', JNum 9)]"
    by (simp add: row_def arrayObj_def upt_rec digit_def)
  have named: "namedElsePositional row ''id'' 0 = JStr ''Function:a.ts:foo''"
    "namedElsePositional row ''name'' 1 = JStr ''foo''"
    "namedElsePositional row ''label'' 2 = JStr ''Function''"
    "namedElsePositional row ''filePath'' 3 = JStr ''a.ts''"
    "namedElsePositional row ''content'' 4 = JUndefined"
    "namedElsePositional row ''startLine'' 5 = JNum 3"
    "namedElsePositional row ''endLine'' 6 = JNum 9"
    by (simp_all add: r namedElsePositional_def elemAt_def getProp_def digit_def)
  have q: "executeQuery (embeddableNodesCypher (EMBEDDABLE_LABELS x)) (db w) = (Inr (map RowObj [row]), ())"
    and inst: "embedderInstance (emb w) = Some 5" and call: "callEmbedder x 5 [''foo''] = Inr [1, 2]"
    and s: "executeQuery (semanticSearchCypher x (newFloat32Array x [1, 2]) 10 1) (db w) = (Inr (map RowObj [row]), ())"
    by (simp_all add: executeQuery_def w_def x_def)
  note t = row_mapping_fallback [where row = row and rows = "[row]" and x = x and w = w
      and executeQuery = executeQuery and d = "()" and inst = 5 and query = "''foo''"
      and queryVec = "[1, 2]" and k = 10 and maxDistance = 1]
  have "rowToEmbeddableNode (RowObj row) = Inr \<lparr> en_id = JStr ''Function:a.ts:foo'', en_name = JStr ''foo'',
                 en_label = JStr ''Function'', en_filePath = JStr ''a.ts'', en_content = JStr [],
                 en_startLine = JNum 3, en_endLine = JNum 9 \<rparr>"
    using t unfolding named by simp
  moreover from this have "fst (queryEmbeddableNodes x executeQuery w) = Inr [\<lparr> en_id = JStr ''Function:a.ts:foo'', en_name = JStr ''foo'',
                 en_label = JStr ''Function'', en_filePath = JStr ''a.ts'', en_content = JStr [],
                 en_startLine = JNum 3, en_endLine = JNum 9 \<rparr>]"
    using t q by simp
  moreover have "map sr_name (projr (fst (semanticSearch x executeQuery ''foo'' 10 1 w))) = [JStr ''foo'']"
    using t inst call s unfolding named by simp
  ultimately show ?thesis
    unfolding Let_def row_def [symmetric] x_def [symmetric] w_def [symmetric]
      executeQuery_def [symmetric]
    by simp
qed

section \<open>Properties: the embedder singleton\<close>

lemma emb_inv_initial: "emb_inv emb_initial"
  by (simp add: emb_inv_def emb_initial_def)

lemma emb_inv_initEmbedder: "emb_inv s \<Longrightarrow> emb_inv (snd (initEmbedder dflt config s))"
  by (auto simp: emb_inv_def initEmbedder_def Let_def split: option.splits list.splits bool.splits)

lemma emb_inv_pipelineSettled: "emb_inv s \<Longrightarrow> emb_inv (fst (pipelineSettled k outcome s))"
  by (auto simp: emb_inv_def pipelineSettled_def Let_def split: option.splits list.splits sum.splits if_splits)

lemma emb_inv_step:
  assumes "emb_inv s" "\<not> isCallDispose e"
  shows "emb_inv (emb_step dflt s e)"
proof (cases e)
  case DisposeSettled
  with assms(1) show ?thesis by (simp add: disposeSettled_def emb_inv_def)
qed (use assms in \<open>simp_all add: emb_inv_initEmbedder emb_inv_pipelineSettled\<close>)

lemma emb_inv_run:
  "emb_inv s \<Longrightarrow> list_all (\<lambda>e. \<not> isCallDispose e) evs \<Longrightarrow> emb_inv (emb_run dflt s evs)"
  unfolding emb_run_def
  by (induction evs arbitrary: s) (simp_all add: emb_inv_step)

lemma cached_call: "embedderInstance s = Some inst \<Longrightarrow> initEmbedder dflt config s = (Cached inst, s)"
  by (simp add: initEmbedder_def)

lemma cached_step:
  "emb_inv s \<Longrightarrow> embedderInstance s = Some inst \<Longrightarrow> \<not> isCallDispose e \<Longrightarrow> emb_step dflt s e = s"
  by (cases e) (auto simp: initEmbedder_def pipelineSettled_def disposeSettled_def emb_inv_def split: list.splits)

lemma cached_run:
  "emb_inv s \<Longrightarrow> embedderInstance s = Some inst \<Longrightarrow> list_all (\<lambda>e. \<not> isCallDispose e) evs \<Longrightarrow>
   emb_run dflt s evs = s"
  unfolding emb_run_def
  by (induction evs arbitrary: s) (simp_all add: cached_step)

lemma inflight_call:
  "emb_inv s \<Longrightarrow> t \<in> set (running s) \<Longrightarrow> initEmbedder dflt config s = (InFlight (t_promise t), s)"
  by (auto simp: initEmbedder_def emb_inv_def split: list.splits)

lemma inflight_success:
  "emb_inv s \<Longrightarrow> t \<in> set (running s) \<Longrightarrow>
   pipelineSettled (t_promise t) (Inr inst) s =
     (s\<lparr> embedderInstance := Some inst, isInitializing := False, running := [] \<rparr>, Some (Inr inst))"
  by (auto simp: pipelineSettled_def emb_inv_def split: list.splits)

lemma disposed_call:
  "embedderInstance s = None \<Longrightarrow> initPromise s = None \<Longrightarrow>
   fst (initEmbedder dflt config s) = Started (promiseCount s) \<and>
   length (pipelineCalls (snd (initEmbedder dflt config s))) = Suc (length (pipelineCalls s))"
  by (simp add: initEmbedder_def Let_def split: bool.splits)

lemma dispose_now:
  "embedderInstance s = Some inst \<Longrightarrow> d \<noteq> DisposeReturns \<Longrightarrow>
   embedderInstance (disposeEmbedder d s) = None \<and> initPromise (disposeEmbedder d s) = None \<and>
   promiseCount (disposeEmbedder d s) = promiseCount s \<and> pipelineCalls (disposeEmbedder d s) = pipelineCalls s"
  by (cases d) (simp_all add: disposeEmbedder_def)

lemma dispose_later:
  "embedderInstance s = Some inst \<Longrightarrow>
   embedderInstance (disposeSettled (disposeEmbedder DisposeReturns s)) = None \<and>
   initPromise (disposeSettled (disposeEmbedder DisposeReturns s)) = None \<and>
   promiseCount (disposeSettled (disposeEmbedder DisposeReturns s)) = promiseCount s \<and>
   pipelineCalls (disposeSettled (disposeEmbedder DisposeReturns s)) = pipelineCalls s"
  by (simp add: disposeEmbedder_def disposeSettled_def)

text \<open>
  Claim C7, as amended. Let \<open>s\<close> be the module's state after any history of calls of
  \<open>initEmbedder\<close> and \<open>disposeEmbedder\<close> and of settlements of what they wait for, from the
  initial state. \<open>isEmbedderReady\<close> is true exactly when an instance exists, and if one
  exists a call of \<open>initEmbedder\<close> returns it and changes nothing (no \<open>pipeline(...)\<close> call
  is made). If \<open>disposeEmbedder\<close> was not called in the history: with an instance in \<open>s\<close>,
  no later history without such a call changes the state; with an initialisation in
  flight in \<open>s\<close>, a call of \<open>initEmbedder\<close> returns its promise and changes nothing, so no
  second load starts, and when its \<open>pipeline(...)\<close> call then resolves with an instance,
  its promise resolves with that instance, which becomes the stored one. Once
  \<open>disposeEmbedder\<close> has run to its end on a state with an instance (at once when the
  instance has no \<open>dispose\<close> function or it throws, after the awaited \<open>dispose()\<close> has
  settled otherwise), no instance exists and the next call of \<open>initEmbedder\<close> starts a new
  initialisation with one more \<open>pipeline(...)\<close> call.
\<close>

theorem initEmbedder_singleton:
  "let s = emb_run dflt emb_initial evs in
     (isEmbedderReady s \<longleftrightarrow> embedderInstance s \<noteq> None) \<and>
     (\<forall>inst. embedderInstance s = Some inst \<longrightarrow> initEmbedder dflt config s = (Cached inst, s)) \<and>
     (list_all (\<lambda>e. \<not> isCallDispose e) evs \<longrightarrow>
        (\<forall>inst. embedderInstance s = Some inst \<and> list_all (\<lambda>e. \<not> isCallDispose e) later \<longrightarrow>
           emb_run dflt s later = s) \<and>
        (\<forall>t \<in> set (running s).
           initEmbedder dflt config s = (InFlight (t_promise t), s) \<and>
           pipelineSettled (t_promise t) (Inr new) s =
             (s\<lparr> embedderInstance := Some new, isInitializing := False, running := [] \<rparr>,
              Some (Inr new)))) \<and>
     (\<forall>inst. embedderInstance s = Some inst \<longrightarrow>
        (\<forall>s' \<in> set ((if d = DisposeReturns then [] else [emb_run dflt s [CallDispose d]]) @
                      [emb_run dflt s [CallDispose DisposeReturns, DisposeSettled]]).
           \<not> isEmbedderReady s' \<and>
           fst (initEmbedder dflt config s') = Started (promiseCount s) \<and>
           length (pipelineCalls (snd (initEmbedder dflt config s'))) = Suc (length (pipelineCalls s))))"
proof -
  define s where "s = emb_run dflt emb_initial evs"
  have inv: "emb_inv s" if "list_all (\<lambda>e. \<not> isCallDispose e) evs"
    unfolding s_def using that by (intro emb_inv_run emb_inv_initial)
  have a: "isEmbedderReady s \<longleftrightarrow> embedderInstance s \<noteq> None"
    by (simp add: isEmbedderReady_def)
  have b: "\<forall>inst. embedderInstance s = Some inst \<longrightarrow> initEmbedder dflt config s = (Cached inst, s)"
    by (simp add: cached_call)
  have c: "list_all (\<lambda>e. \<not> isCallDispose e) evs \<longrightarrow>
        (\<forall>inst. embedderInstance s = Some inst \<and> list_all (\<lambda>e. \<not> isCallDispose e) later \<longrightarrow>
           emb_run dflt s later = s) \<and>
        (\<forall>t \<in> set (running s).
           initEmbedder dflt config s = (InFlight (t_promise t), s) \<and>
           pipelineSettled (t_promise t) (Inr new) s =
             (s\<lparr> embedderInstance := Some new, isInitializing := False, running := [] \<rparr>,
              Some (Inr new)))"
    using inv by (auto simp: cached_run inflight_call inflight_success)
  have d: "\<forall>inst. embedderInstance s = Some inst \<longrightarrow>
        (\<forall>s' \<in> set ((if d = DisposeReturns then [] else [emb_run dflt s [CallDispose d]]) @
                      [emb_run dflt s [CallDispose DisposeReturns, DisposeSettled]]).
           \<not> isEmbedderReady s' \<and>
           fst (initEmbedder dflt config s') = Started (promiseCount s) \<and>
           length (pipelineCalls (snd (initEmbedder dflt config s'))) = Suc (length (pipelineCalls s)))"
  proof (intro allI impI ballI)
    fix inst s'
    assume i: "embedderInstance s = Some inst"
      and "s' \<in> set ((if d = DisposeReturns then [] else [emb_run dflt s [CallDispose d]]) @
                      [emb_run dflt s [CallDispose DisposeReturns, DisposeSettled]])"
    then consider "d \<noteq> DisposeReturns" "s' = disposeEmbedder d s"
      | "s' = disposeSettled (disposeEmbedder DisposeReturns s)"
      by (auto simp: emb_run_def split: if_splits)
    then have s': "embedderInstance s' = None \<and> initPromise s' = None \<and>
        promiseCount s' = promiseCount s \<and> pipelineCalls s' = pipelineCalls s"
      using dispose_now [OF i] dispose_later [OF i] by cases simp_all
    with disposed_call [of s' dflt config]
    show "\<not> isEmbedderReady s' \<and>
           fst (initEmbedder dflt config s') = Started (promiseCount s) \<and>
           length (pipelineCalls (snd (initEmbedder dflt config s'))) = Suc (length (pipelineCalls s))"
      by (simp add: isEmbedderReady_def)
  qed
  show ?thesis
    unfolding Let_def s_def [symmetric] using a b c d by blast
qed


text \<open>
  A history: a call with the default configuration (device \<open>webgpu\<close>), whose first load
  fails, so that \<open>wasm\<close> is tried; a call made then joins promise \<open>0\<close>; the second load
  resolves with instance \<open>7\<close>, which every later call returns. Two \<open>pipeline(...)\<close> calls
  were made in all. After a disposal the next call starts promise \<open>1\<close>.
\<close>

theorem initEmbedder_singleton_witness:
  "(let dflt = \<lparr> modelId = ''Snowflake/snowflake-arctic-embed-xs'', batchSize = 16, dimensions = 384, device = webgpu \<rparr>;
        config = \<lparr> p_modelId = None, p_batchSize = None, p_dimensions = None, p_device = None \<rparr>;
        s1 = emb_run dflt emb_initial [CallInit config, PipelineSettled 0 (Inl None)];
        s2 = emb_run dflt emb_initial
               [CallInit config, PipelineSettled 0 (Inl None), PipelineSettled 0 (Inr (7::nat))]
    in map t_promise (running s1) = [0] \<and>
       initEmbedder dflt config s1 = (InFlight 0, s1) \<and>
       fst (pipelineSettled 0 (Inr 7) s1) = s2 \<and>
       embedderInstance s2 = Some 7 \<and> isEmbedderReady s2 \<and>
       initEmbedder dflt config s2 = (Cached 7, s2) \<and>
       emb_run dflt s2 [CallInit config, DisposeSettled, CallInit config] = s2 \<and>
       length (pipelineCalls s2) = 2 \<and>
       fst (initEmbedder dflt config (emb_run dflt s2 [CallDispose DisposeThrows])) = Started 1 \<and>
       fst (initEmbedder dflt config (emb_run dflt s2 [CallDispose DisposeReturns, DisposeSettled])) =
         Started 1)"
proof -
  define dflt where "dflt = \<lparr> modelId = ''Snowflake/snowflake-arctic-embed-xs'', batchSize = 16, dimensions = 384, device = webgpu \<rparr>"
  define config where "config = \<lparr> p_modelId = None, p_batchSize = None, p_dimensions = None, p_device = None \<rparr>"
  define s1 :: "nat embedder" where "s1 = emb_run dflt emb_initial [CallInit config, PipelineSettled 0 (Inl None)]"
  define s2 :: "nat embedder" where "s2 = emb_run dflt emb_initial
               [CallInit config, PipelineSettled 0 (Inl None), PipelineSettled 0 (Inr (7::nat))]"
  have r1: "s1 = \<lparr> embedderInstance = None, isInitializing = True, initPromise = Some 0,
        running = [\<lparr> t_promise = 0, t_modelId = ''Snowflake/snowflake-arctic-embed-xs'', t_remaining = [] \<rparr>],
        promiseCount = 1,
        pipelineCalls = [(''Snowflake/snowflake-arctic-embed-xs'', webgpu), (''Snowflake/snowflake-arctic-embed-xs'', wasm)],
        disposing = 0 \<rparr>"
    by (simp add: s1_def dflt_def config_def emb_run_def emb_initial_def initEmbedder_def
        pipelineSettled_def mergeConfig_def devicesToTry_def Let_def)
  have r2: "s2 = s1\<lparr> embedderInstance := Some 7, isInitializing := False, running := [] \<rparr>"
    unfolding r1
    by (simp add: s2_def dflt_def config_def emb_run_def emb_initial_def initEmbedder_def
        pipelineSettled_def mergeConfig_def devicesToTry_def Let_def)
  have a: "initEmbedder dflt config s1 = (InFlight 0, s1) \<and>
        pipelineSettled 0 (Inr 7) s1 = (s2, Some (Inr 7))"
    using initEmbedder_singleton [where dflt = dflt and config = config and new = "7::nat"
        and evs = "[CallInit config, PipelineSettled 0 (Inl None)]"]
    unfolding s1_def [symmetric] Let_def r2 by (simp add: r1)
  have b: "initEmbedder dflt config s2 = (Cached 7, s2) \<and>
        emb_run dflt s2 [CallInit config, DisposeSettled, CallInit config] = s2 \<and>
        fst (initEmbedder dflt config (emb_run dflt s2 [CallDispose DisposeThrows])) = Started 1 \<and>
        fst (initEmbedder dflt config (emb_run dflt s2 [CallDispose DisposeReturns, DisposeSettled])) =
          Started 1"
    using initEmbedder_singleton [where dflt = dflt and config = config and new = "7::nat"
        and d = DisposeThrows
        and evs = "[CallInit config, PipelineSettled 0 (Inl None), PipelineSettled 0 (Inr (7::nat))]"
        and later = "[CallInit config, DisposeSettled, CallInit config]"]
    unfolding s2_def [symmetric] Let_def by (simp add: r2 r1)
  have c: "map t_promise (running s1) = [0] \<and> embedderInstance s2 = Some 7 \<and> isEmbedderReady s2
     \<and> length (pipelineCalls s2) = 2"
    by (simp add: r2 r1 isEmbedderReady_def)
  show ?thesis
    unfolding Let_def dflt_def [symmetric] config_def [symmetric] s1_def [symmetric] s2_def [symmetric]
    using a b c by simp
qed

text \<open>
  The claim as stated fails once \<open>disposeEmbedder\<close> is called. After an initialisation
  has resolved with instance \<open>7\<close> and a disposal has completed, the next call of
  \<open>initEmbedder\<close> loads the model a second time and later calls return the new instance
  \<open>8\<close>. And with two disposals suspended, of which one completes before a call of
  \<open>initEmbedder\<close> and the other after it (clearing \<open>initPromise\<close> while the flag is set), a
  further call starts a second load while the first is in flight.
\<close>

theorem initEmbedder_after_dispose:
  "(let dflt = \<lparr> modelId = ''Snowflake/snowflake-arctic-embed-xs'', batchSize = 16, dimensions = 384, device = wasm \<rparr>;
        config = \<lparr> p_modelId = None, p_batchSize = None, p_dimensions = None, p_device = None \<rparr>;
        s1 = emb_run dflt emb_initial [CallInit config, PipelineSettled 0 (Inr (7::nat))];
        s2 = emb_run dflt s1 [CallDispose DisposeReturns, DisposeSettled];
        s3 = emb_run dflt s2 [CallInit config, PipelineSettled 1 (Inr 8)];
        s4 = emb_run dflt s1
               [CallDispose DisposeReturns, CallDispose DisposeReturns, DisposeSettled,
                CallInit config, DisposeSettled, CallInit config]
    in initEmbedder dflt config s1 = (Cached 7, s1) \<and> length (pipelineCalls s1) = 1 \<and>
       fst (initEmbedder dflt config s2) = Started 1 \<and>
       initEmbedder dflt config s3 = (Cached 8, s3) \<and> length (pipelineCalls s3) = 2 \<and>
       map t_promise (running s4) = [1, 2] \<and> length (pipelineCalls s4) = 3)"
  by (simp add: emb_run_def emb_initial_def initEmbedder_def pipelineSettled_def disposeEmbedder_def
      disposeSettled_def mergeConfig_def devicesToTry_def Let_def)

section \<open>Properties: embedding a batch\<close>

lemma length_jsSlice: "length (jsSlice data a b) = min (b - a) (length data - a)"
  by (simp add: jsSlice_def)

lemma length_splitVectors: "length (splitVectors x dims n data) = n"
  by (simp add: splitVectors_def)

lemma nth_splitVectors:
  "i < n \<Longrightarrow>
   splitVectors x dims n data ! i = map (toFloat32 x) (jsSlice data (i * dims) ((i + 1) * dims))"
  by (simp add: splitVectors_def newFloat32Array_def add.commute)

lemma full_splitVectors:
  assumes "n * dims \<le> length data" "v \<in> set (splitVectors x dims n data)"
  shows "length v = dims"
proof -
  from assms(2) obtain i where i: "i < n"
    and v: "v = newFloat32Array x (jsSlice data (i * dims) (i * dims + dims))"
    by (auto simp: splitVectors_def)
  from i have "Suc i * dims \<le> n * dims"
    by (intro mult_le_mono1) simp
  with assms(1) have "i * dims + dims \<le> length data" by simp
  then show ?thesis by (simp add: v length_jsSlice newFloat32Array_def)
qed

text \<open>
  Claim C8, as amended. For the empty list \<open>embedBatch\<close> returns the empty list
  without reading the embedder or calling the model, whatever the module's state. For
  a non-empty list of \<open>n\<close> texts: without an instance it throws
  \<open>Embedder not initialized. Call initEmbedder() first.\<close> and the model is not called; when
  the instance's call throws, it throws that value; when the call returns \<open>data\<close> and the
  default configuration's \<open>dimensions\<close> is 384, \<open>embedBatch\<close> calls the model once and
  returns exactly \<open>n\<close> vectors, the \<open>i\<close>-th being the slice of \<open>data\<close> from \<open>i * 384\<close> to
  \<open>(i + 1) * 384\<close> cut at the length of \<open>data\<close>, each entry rounded to single precision;
  each vector has exactly 384 entries when \<open>data\<close> has at least \<open>n * 384\<close> entries.
\<close>

theorem embedBatch_vectors:
  "embedBatch x s [] = (Inr [], []) \<and>
   (texts \<noteq> [] \<and> embedderInstance s = None \<longrightarrow>
      embedBatch x s texts =
        (Inl (Own ''Embedder not initialized. Call initEmbedder() first.''), [])) \<and>
   (texts \<noteq> [] \<and> embedderInstance s = Some inst \<and> callEmbedder x inst texts = Inl e \<longrightarrow>
      embedBatch x s texts = (Inl (External e), [texts])) \<and>
   (texts \<noteq> [] \<and> embedderInstance s = Some inst \<and> callEmbedder x inst texts = Inr data \<and>
    dimensions (DEFAULT_EMBEDDING_CONFIG x) = 384 \<longrightarrow>
      (\<exists>vs. embedBatch x s texts = (Inr vs, [texts]) \<and>
            length vs = length texts \<and>
            (\<forall>i < length texts.
               vs ! i = map (toFloat32 x) (jsSlice data (i * 384) ((i + 1) * 384))) \<and>
            (length texts * 384 \<le> length data \<longrightarrow> (\<forall>v \<in> set vs. length v = 384))))"
  by (auto simp: embedBatch_def getEmbedder_def length_splitVectors nth_splitVectors
      full_splitVectors)

text \<open>
  Two texts and a model that returns 384 numbers for each; one text without an
  instance; one text and an instance whose call throws.
\<close>

theorem embedBatch_vectors_witness:
  "(let x = \<lparr> DEFAULT_EMBEDDING_CONFIG =
                  \<lparr> modelId = ''Snowflake/snowflake-arctic-embed-xs'', batchSize = 16,
                    dimensions = 384, device = webgpu \<rparr>,
                EMBEDDABLE_LABELS = [''Function''],
                callEmbedder = (\<lambda>inst texts.
                  if inst = 0 then Inl (Some ''model failure'')
                  else Inr (replicate (length texts * 384) (inst::nat))),
                generateBatchEmbeddingTexts = (\<lambda>nodes c. []),
                showNum = (\<lambda>n. ''0''), numLit = (\<lambda>n. n), isTruthyNum = (\<lambda>n. n \<noteq> 0),
                roundModelPercent = (\<lambda>v. 0), roundEmbeddingPercent = (\<lambda>p t. 0),
                typeErrorMessage = ''TypeError'', toFloat32 = (\<lambda>n. n) \<rparr>;
        s = emb_initial\<lparr> embedderInstance := Some (5::nat) \<rparr>
    in (\<exists>vs. embedBatch x s [''a'', ''b''] = (Inr vs, [[''a'', ''b'']]) \<and> length vs = 2 \<and>
            list_all (\<lambda>v. length v = 384) vs) \<and>
       embedBatch x emb_initial [''a''] =
         (Inl (Own ''Embedder not initialized. Call initEmbedder() first.''), []) \<and>
       embedBatch x (emb_initial\<lparr> embedderInstance := Some 0 \<rparr>) [''a''] =
         (Inl (External (Some ''model failure'')), [[''a'']]))"
proof -
  define x :: "(nat, nat) ext" where "x = \<lparr> DEFAULT_EMBEDDING_CONFIG =
                  \<lparr> modelId = ''Snowflake/snowflake-arctic-embed-xs'', batchSize = 16,
                    dimensions = 384, device = webgpu \<rparr>,
                EMBEDDABLE_LABELS = [''Function''],
                callEmbedder = (\<lambda>inst texts.
                  if inst = 0 then Inl (Some ''model failure'')
                  else Inr (replicate (length texts * 384) (inst::nat))),
                generateBatchEmbeddingTexts = (\<lambda>nodes c. []),
                showNum = (\<lambda>n. ''0''), numLit = (\<lambda>n. n), isTruthyNum = (\<lambda>n. n \<noteq> 0),
                roundModelPercent = (\<lambda>v. 0), roundEmbeddingPercent = (\<lambda>p t. 0),
                typeErrorMessage = ''TypeError'', toFloat32 = (\<lambda>n. n) \<rparr>"
  define s :: "nat embedder" where "s = emb_initial\<lparr> embedderInstance := Some (5::nat) \<rparr>"
  have a: "\<exists>vs. embedBatch x s [''a'', ''b''] = (Inr vs, [[''a'', ''b'']]) \<and> length vs = 2 \<and>
            list_all (\<lambda>v. length v = 384) vs"
    using embedBatch_vectors [of x s "[''a'', ''b'']" 5 _ "replicate (2 * 384) 5"]
    by (auto simp: x_def s_def list_all_iff)
  have b: "embedBatch x emb_initial [''a''] =
         (Inl (Own ''Embedder not initialized. Call initEmbedder() first.''), [])"
    using embedBatch_vectors [of x emb_initial "[''a'']"]
    by (simp add: emb_initial_def)
  have c: "embedBatch x (emb_initial\<lparr> embedderInstance := Some 0 \<rparr>) [''a''] =
         (Inl (External (Some ''model failure'')), [[''a'']])"
    using embedBatch_vectors [of x "emb_initial\<lparr> embedderInstance := Some 0 \<rparr>" "[''a'']" 0 "Some ''model failure''"]
    by (simp add: x_def)
  show ?thesis
    unfolding Let_def x_def [symmetric] s_def [symmetric] using a b c by simp
qed

text \<open>
  The claim as stated fails: with an instance whose model returns two numbers per text
  (\<open>initEmbedder\<close> accepts any \<open>modelId\<close>), \<open>embedBatch\<close> on two texts returns vectors of 4 and
  0 entries; an entry 16777217 of the model output, which single precision cannot
  hold, comes back as 16777216; and on a non-empty list without an instance it throws.
\<close>

theorem embedBatch_short_output:
  "(let x = \<lparr> DEFAULT_EMBEDDING_CONFIG =
                  \<lparr> modelId = ''other/model-of-2-dimensions'', batchSize = 16,
                    dimensions = 384, device = wasm \<rparr>,
                EMBEDDABLE_LABELS = [''Function''],
                callEmbedder = (\<lambda>inst texts. Inr (concat (map (\<lambda>t. [inst::nat, inst]) texts))),
                generateBatchEmbeddingTexts = (\<lambda>nodes c. []),
                showNum = (\<lambda>n. ''0''), numLit = (\<lambda>n. n), isTruthyNum = (\<lambda>n. n \<noteq> 0),
                roundModelPercent = (\<lambda>v. 0), roundEmbeddingPercent = (\<lambda>p t. 0),
                typeErrorMessage = ''TypeError'',
                toFloat32 = (\<lambda>n. if n < 16777216 then n else 2 * (n div 2)) \<rparr>
    in embedBatch x (emb_initial\<lparr> embedderInstance := Some (5::nat) \<rparr>) [''a'', ''b''] =
         (Inr [[5, 5, 5, 5], []], [[''a'', ''b'']]) \<and>
       map length [[5, 5, 5, 5], [] :: nat list] = [4, 0] \<and>
       embedBatch x (emb_initial\<lparr> embedderInstance := Some 16777217 \<rparr>) [''a''] =
         (Inr [[16777216, 16777216]], [[''a'']]) \<and>
       fst (embedBatch x emb_initial [''a'']) =
         Inl (Own ''Embedder not initialized. Call initEmbedder() first.''))"
  by (simp add: embedBatch_def getEmbedder_def emb_initial_def splitVectors_def jsSlice_def
      newFloat32Array_def upt_rec Let_def)

section \<open>Properties: the pipeline run and the searches\<close>

lemma onProgress_simps [simp]:
  "emb (onProgress p w) = emb w" "db (onProgress p w) = db w"
  "issued (onProgress p w) = issued w" "modelCalls (onProgress p w) = modelCalls w"
  "reported (onProgress p w) = reported w @ [p]"
  by (simp_all add: onProgress_def)

lemma foldl_onProgress:
  "foldl (\<lambda>v mp. onProgress (f mp) v) w mps = w\<lparr> reported := reported w @ map f mps \<rparr>"
  by (induction mps arbitrary: w) (simp_all add: onProgress_def)

text \<open>
  Claim C9. When the awaited \<open>initEmbedder\<close> gives an instance and the embeddable-node
  query returns no row, \<open>runEmbeddingPipeline\<close> returns normally; the only text passed
  to \<open>executeQuery\<close> is the embeddable-node query (no node update, no vector index), the
  model is not called, and the progress values reported are the two of phase
  \<open>loading-model\<close> around the model's own, then, last, phase \<open>ready\<close> with percent 100,
  \<open>nodesProcessed\<close> 0 and \<open>totalNodes\<close> 0.
\<close>

theorem runEmbeddingPipeline_no_nodes:
  assumes init: "awaitInitEmbedder x (asPartial (mergeConfig (DEFAULT_EMBEDDING_CONFIG x) config))
                   loads (emb w) = Some (Inr inst, modelProgress, s')"
    and query: "executeQuery (embeddableNodesCypher (EMBEDDABLE_LABELS x)) (db w) = (Inr [], d)"
  shows "runEmbeddingPipeline x executeQuery config loads w =
     Some (Inr (),
       w\<lparr> db := d,
          emb := s',
          issued := issued w @ [embeddableNodesCypher (EMBEDDABLE_LABELS x)],
          reported := reported w @
            [(progressOf Loading_model (numLit x 0))
               \<lparr> pg_modelDownloadPercent := Some (JNum (numLit x 0)) \<rparr>] @
            map (modelProgressReport x) modelProgress @
            [(progressOf Loading_model (numLit x 20))
               \<lparr> pg_modelDownloadPercent := Some (JNum (numLit x 100)) \<rparr>,
             (progressOf Ready (numLit x 100))
               \<lparr> pg_nodesProcessed := Some 0, pg_totalNodes := Some 0 \<rparr>] \<rparr>)"
proof -
  let ?p0 = "(progressOf Loading_model (numLit x 0))
               \<lparr> pg_modelDownloadPercent := Some (JNum (numLit x 0)) \<rparr>"
  let ?p20 = "(progressOf Loading_model (numLit x 20))
               \<lparr> pg_modelDownloadPercent := Some (JNum (numLit x 100)) \<rparr>"
  let ?w2 = "w\<lparr> emb := s', reported := reported w @ [?p0] @
               map (modelProgressReport x) modelProgress @ [?p20] \<rparr>"
  have body: "pipelineTry x executeQuery config loads w =
      queryAndEmbed x executeQuery (mergeConfig (DEFAULT_EMBEDDING_CONFIG x) config) ?w2"
    using init
    by (simp add: pipelineTry_def Let_def foldl_onProgress)
       (simp add: onProgress_def)
  have q: "queryAndEmbed x executeQuery (mergeConfig (DEFAULT_EMBEDDING_CONFIG x) config) ?w2 =
      Some (Inr (), onProgress ((progressOf Ready (numLit x 100))
               \<lparr> pg_nodesProcessed := Some 0, pg_totalNodes := Some 0 \<rparr>)
             (?w2\<lparr> db := d, issued := issued w @ [embeddableNodesCypher (EMBEDDABLE_LABELS x)] \<rparr>))"
    using query
    by (simp add: queryAndEmbed_def queryEmbeddableNodes_def callQuery_def Let_def)
  show ?thesis
    unfolding runEmbeddingPipeline_def body q
    by (simp add: onProgress_def)
qed

text \<open>
  A first run on an empty database: the model loads at once (instance \<open>5\<close>), the query
  returns no row.
\<close>

theorem runEmbeddingPipeline_no_nodes_witness:
  "(let x = \<lparr> DEFAULT_EMBEDDING_CONFIG =
                  \<lparr> modelId = ''Snowflake/snowflake-arctic-embed-xs'', batchSize = 16,
                    dimensions = 384, device = wasm \<rparr>,
                EMBEDDABLE_LABELS = [''Function'', ''Class''],
                callEmbedder = (\<lambda>inst texts. Inr []),
                generateBatchEmbeddingTexts = (\<lambda>nodes c. []),
                showNum = (\<lambda>n. ''0''), numLit = (\<lambda>n. n), isTruthyNum = (\<lambda>n. n \<noteq> 0),
                roundModelPercent = (\<lambda>v. 0), roundEmbeddingPercent = (\<lambda>p t. 0),
                typeErrorMessage = ''TypeError'', toFloat32 = (\<lambda>n. n) \<rparr>;
        config = \<lparr> p_modelId = None, p_batchSize = None, p_dimensions = None, p_device = None \<rparr>;
        w = \<lparr> db = (), emb = emb_initial, issued = [], reported = [], modelCalls = [] \<rparr>
    in case runEmbeddingPipeline x (\<lambda>cypher d. (Inr [], d)) config [([], Inr (5::nat))] w of
         Some (Inr u, w') \<Rightarrow>
           issued w' = [embeddableNodesCypher [''Function'', ''Class'']] \<and>
           modelCalls w' = [] \<and>
           embedderInstance (emb w') = Some 5 \<and>
           map pg_phase (reported w') = [Loading_model, Loading_model, Ready] \<and>
           last (reported w') =
             (progressOf Ready 100) \<lparr> pg_nodesProcessed := Some 0, pg_totalNodes := Some 0 \<rparr>
       | _ \<Rightarrow> False)"
proof -
  define x :: "(nat, nat) ext" where "x = \<lparr> DEFAULT_EMBEDDING_CONFIG =
                  \<lparr> modelId = ''Snowflake/snowflake-arctic-embed-xs'', batchSize = 16,
                    dimensions = 384, device = wasm \<rparr>,
                EMBEDDABLE_LABELS = [''Function'', ''Class''],
                callEmbedder = (\<lambda>inst texts. Inr []),
                generateBatchEmbeddingTexts = (\<lambda>nodes c. []),
                showNum = (\<lambda>n. ''0''), numLit = (\<lambda>n. n), isTruthyNum = (\<lambda>n. n \<noteq> 0),
                roundModelPercent = (\<lambda>v. 0), roundEmbeddingPercent = (\<lambda>p t. 0),
                typeErrorMessage = ''TypeError'', toFloat32 = (\<lambda>n. n) \<rparr>"
  define config where
    "config = \<lparr> p_modelId = None, p_batchSize = None, p_dimensions = None, p_device = None \<rparr>"
  define w :: "(unit, nat, nat) world" where
    "w = \<lparr> db = (), emb = emb_initial, issued = [], reported = [], modelCalls = [] \<rparr>"
  define s' :: "nat embedder" where
    "s' = \<lparr> embedderInstance = Some 5, isInitializing = False, initPromise = Some 0,
             running = [], promiseCount = 1,
             pipelineCalls = [(''Snowflake/snowflake-arctic-embed-xs'', wasm)],
             disposing = 0 \<rparr>"
  have init: "awaitInitEmbedder x (asPartial (mergeConfig (DEFAULT_EMBEDDING_CONFIG x) config))
                   [([], Inr 5)] (emb w) = Some (Inr 5, [], s')"
    by (simp add: awaitInitEmbedder_def initEmbedder_def pipelineSettled_def x_def config_def w_def
        s'_def emb_initial_def mergeConfig_def asPartial_def devicesToTry_def Let_def)
  have query: "(\<lambda>cypher d. (Inr [], d)) (embeddableNodesCypher (EMBEDDABLE_LABELS x)) (db w)
      = (Inr [], ())"
    by simp
  have labels: "EMBEDDABLE_LABELS x = [''Function'', ''Class'']" and lit: "numLit x = (\<lambda>n. n)"
    by (simp_all add: x_def)
  show ?thesis
    unfolding Let_def x_def [symmetric] config_def [symmetric] w_def [symmetric]
    using runEmbeddingPipeline_no_nodes [where executeQuery = "\<lambda>cypher d. (Inr [], d)",
        OF init query]
    by (simp add: labels lit w_def s'_def progressOf_def)
qed

lemma notInitialized_neq [simp]:
  "notInitialized \<noteq> External e" "notInitialized \<noteq> RuntimeTypeError"
  "External e \<noteq> notInitialized" "RuntimeTypeError \<noteq> notInitialized"
  by (simp_all add: notInitialized_def)

lemma mapRows_error: "mapRows rowToSearchResult rows = Inl e \<Longrightarrow> e = RuntimeTypeError"
proof (induction rows)
  case Nil
  then show ?case by simp
next
  case (Cons r rows)
  then show ?case
    by (cases r) (auto split: sum.splits)
qed

lemma embedText_ready:
  "isEmbedderReady s \<Longrightarrow> fst (embedText x s text) \<noteq> Inl notInitialized"
  by (auto simp: embedText_def getEmbedder_def isEmbedderReady_def split: option.splits sum.splits)

text \<open>
  Claim C10. When the embedder is not ready, \<open>semanticSearch\<close> and
  \<open>semanticSearchWithContext\<close> throw the error \<open>Embedding model not initialized. Run
  embedding pipeline first.\<close> and leave everything as it was: no text is passed to
  \<open>executeQuery\<close> and the model is not called. When it is ready, neither throws that
  error (whatever else a callback may throw).
\<close>

theorem semanticSearch_guard:
  "(\<not> isEmbedderReady (emb w) \<longrightarrow>
      semanticSearch x executeQuery query k maxDistance w = (Inl notInitialized, w) \<and>
      semanticSearchWithContext x executeQuery query k hops w = (Inl notInitialized, w)) \<and>
   (isEmbedderReady (emb w) \<longrightarrow>
      fst (semanticSearch x executeQuery query k maxDistance w) \<noteq> Inl notInitialized \<and>
      fst (semanticSearchWithContext x executeQuery query k hops w) \<noteq> Inl notInitialized)"
proof -
  have a: "fst (semanticSearch x executeQuery query k maxDistance w) \<noteq> Inl notInitialized"
    if "isEmbedderReady (emb w)"
    using that embedText_ready [OF that, of x query]
    by (auto simp: semanticSearch_def callQuery_def Let_def split: prod.splits sum.splits
        dest: mapRows_error)
  have b: "fst (semanticSearchWithContext x executeQuery query k hops w) \<noteq> Inl notInitialized"
    if "isEmbedderReady (emb w)"
    using that embedText_ready [OF that, of x query]
    by (auto simp: semanticSearchWithContext_def callQuery_def Let_def split: prod.splits sum.splits)
  show ?thesis
    using a b by (simp add: semanticSearch_def semanticSearchWithContext_def)
qed

text \<open>
  A world without an instance, where both searches throw and nothing changes, and the
  same world with instance \<open>5\<close>, where the search passes one text to \<open>executeQuery\<close>.
\<close>

theorem semanticSearch_guard_witness:
  "(let x = \<lparr> DEFAULT_EMBEDDING_CONFIG =
                  \<lparr> modelId = ''Snowflake/snowflake-arctic-embed-xs'', batchSize = 16,
                    dimensions = 384, device = wasm \<rparr>,
                EMBEDDABLE_LABELS = [''Function'', ''Class''],
                callEmbedder = (\<lambda>inst texts. Inr [1, 2]),
                generateBatchEmbeddingTexts = (\<lambda>nodes c. []),
                showNum = (\<lambda>n. ''0''), numLit = (\<lambda>n. n), isTruthyNum = (\<lambda>n. n \<noteq> 0),
                roundModelPercent = (\<lambda>v. 0), roundEmbeddingPercent = (\<lambda>p t. 0),
                typeErrorMessage = ''TypeError'', toFloat32 = (\<lambda>n. n) \<rparr>;
        w = \<lparr> db = (), emb = emb_initial, issued = [], reported = [], modelCalls = [] \<rparr>;
        ready = w\<lparr> emb := emb_initial\<lparr> embedderInstance := Some (5::nat) \<rparr> \<rparr>;
        executeQuery = (\<lambda>cypher d. (Inr [], d))
    in \<not> isEmbedderReady (emb w) \<and>
       semanticSearch x executeQuery ''auth'' (10::nat) 1 w = (Inl notInitialized, w) \<and>
       semanticSearchWithContext x executeQuery ''auth'' 10 2 w = (Inl notInitialized, w) \<and>
       isEmbedderReady (emb ready) \<and>
       fst (semanticSearch x executeQuery ''auth'' 10 1 ready) \<noteq> Inl notInitialized \<and>
       fst (semanticSearchWithContext x executeQuery ''auth'' 10 2 ready) \<noteq> Inl notInitialized \<and>
       length (issued (snd (semanticSearch x executeQuery ''auth'' 10 1 ready))) = 1)"
proof -
  define x :: "(nat, nat) ext" where "x = \<lparr> DEFAULT_EMBEDDING_CONFIG =
                  \<lparr> modelId = ''Snowflake/snowflake-arctic-embed-xs'', batchSize = 16,
                    dimensions = 384, device = wasm \<rparr>,
                EMBEDDABLE_LABELS = [''Function'', ''Class''],
                callEmbedder = (\<lambda>inst texts. Inr [1, 2]),
                generateBatchEmbeddingTexts = (\<lambda>nodes c. []),
                showNum = (\<lambda>n. ''0''), numLit = (\<lambda>n. n), isTruthyNum = (\<lambda>n. n \<noteq> 0),
                roundModelPercent = (\<lambda>v. 0), roundEmbeddingPercent = (\<lambda>p t. 0),
                typeErrorMessage = ''TypeError'', toFloat32 = (\<lambda>n. n) \<rparr>"
  define w :: "(unit, nat, nat) world" where
    "w = \<lparr> db = (), emb = emb_initial, issued = [], reported = [], modelCalls = [] \<rparr>"
  define ready :: "(unit, nat, nat) world" where
    "ready = w\<lparr> emb := emb_initial\<lparr> embedderInstance := Some (5::nat) \<rparr> \<rparr>"
  define executeQuery :: "(unit, nat) executeQuery" where
    "executeQuery = (\<lambda>cypher d. (Inr [], d))"
  have n: "\<not> isEmbedderReady (emb w)" and r: "isEmbedderReady (emb ready)"
    by (simp_all add: w_def ready_def isEmbedderReady_def emb_initial_def)
  have one: "length (issued (snd (semanticSearch x executeQuery ''auth'' 10 1 ready))) = 1"
    by (simp add: semanticSearch_def embedText_def getEmbedder_def callQuery_def recordCalls_def
        isEmbedderReady_def ready_def w_def x_def executeQuery_def emb_initial_def)
  show ?thesis
    unfolding Let_def x_def [symmetric] w_def [symmetric] ready_def [symmetric]
      executeQuery_def [symmetric]
    using semanticSearch_guard [where w = w and x = x and executeQuery = executeQuery
          and query = "''auth''" and k = 10 and maxDistance = 1 and hops = 2]
      semanticSearch_guard [where w = ready and x = x and executeQuery = executeQuery
          and query = "''auth''" and k = 10 and maxDistance = 1 and hops = 2] n r one
    by simp
qed

section \<open>Properties: node updates\<close>

lemma updateNodeEmbedding_issued:
  "issued (snd (updateNodeEmbedding x executeQuery nodeId embedding w)) =
     issued w @ [updateNodeEmbeddingCypher x nodeId embedding]"
  by (simp add: updateNodeEmbedding_def callQuery_def Let_def split: prod.splits sum.splits)

text \<open>
  \<open>batchUpdateEmbeddings\<close> passes to \<open>executeQuery\<close> the update text of each update in
  turn, up to the first that throws, and nothing else.
\<close>

lemma batchUpdateEmbeddings_issued:
  "\<exists>n \<le> length updates.
     issued (snd (batchUpdateEmbeddings x executeQuery updates w)) =
       issued w @ map (\<lambda>u. updateNodeEmbeddingCypher x (u_id u) (u_embedding u)) (take n updates)"
proof (induction updates arbitrary: w)
  case Nil
  then show ?case by simp
next
  case (Cons u us)
  obtain r w' where step: "updateNodeEmbedding x executeQuery (u_id u) (u_embedding u) w = (r, w')"
    by (cases "updateNodeEmbedding x executeQuery (u_id u) (u_embedding u) w")
  have iss: "issued w' = issued w @ [updateNodeEmbeddingCypher x (u_id u) (u_embedding u)]"
    using updateNodeEmbedding_issued [of x executeQuery "u_id u" "u_embedding u" w] step by simp
  show ?case
  proof (cases r)
    case (Inl e)
    with step iss have "issued (snd (batchUpdateEmbeddings x executeQuery (u # us) w)) =
        issued w @ map (\<lambda>u. updateNodeEmbeddingCypher x (u_id u) (u_embedding u)) (take 1 (u # us))"
      by simp
    then show ?thesis by (intro exI [of _ 1]) simp
  next
    case (Inr v)
    from Cons.IH [of w'] obtain n where n: "n \<le> length us"
      "issued (snd (batchUpdateEmbeddings x executeQuery us w')) =
        issued w' @ map (\<lambda>u. updateNodeEmbeddingCypher x (u_id u) (u_embedding u)) (take n us)"
      by blast
    with step iss Inr have "issued (snd (batchUpdateEmbeddings x executeQuery (u # us) w)) =
        issued w @ map (\<lambda>u. updateNodeEmbeddingCypher x (u_id u) (u_embedding u)) (take (Suc n) (u # us))"
      by simp
    with n(1) show ?thesis by (intro exI [of _ "Suc n"]) simp
  qed
qed

text \<open>
  Claim C1, at a node id that holds a single quote. The id is spliced into the text
  between single quotes as it is, so for the id \<open>a'}) SET n.name = 'x' //\<close> the text passed
  to \<open>executeQuery\<close> reads, on its first line, \<open>MATCH (n:CodeNode {id: 'a'}) SET n.name = 'x'\<close>
  followed by a comment, and on its second line the \<open>SET n.embedding\<close> clause: a statement
  on the node whose id is \<open>a\<close> that also assigns its \<open>name\<close>.
\<close>

theorem updateNodeEmbedding_unescaped_id:
  "issued (snd (updateNodeEmbedding x executeQuery
       (JStr (''a'' @ sq @ ''}) SET n.name = '' @ sq @ ''x'' @ sq @ '' //'')) [] w)) =
     issued w @
       [nl @ ''    MATCH (n:CodeNode {id: '' @ sq @ ''a'' @ sq @ ''}) SET n.name = '' @ sq @ ''x'' @ sq @
          '' //'' @ sq @ ''})'' @
        nl @ ''    SET n.embedding = CAST([] AS FLOAT[384])'' @
        nl @ ''  '']"
  by (simp add: updateNodeEmbedding_issued updateNodeEmbeddingCypher_def vectorStr_def)

section \<open>Properties: call resolution\<close>

lemma registerAll_snoc:
  "registerAll (regs @ [(f, n, i, k)]) = register f n i k (registerAll regs)"
  by (simp add: registerAll_def)

lemma lookupLocal_registerAll:
  "lookupLocal (registerAll regs) f n =
     (case filter (\<lambda>(f', n', i, k). f' = f \<and> n' = n) regs of
        [] \<Rightarrow> None
      | r # rs \<Rightarrow> Some (fst (snd (snd (last (r # rs))))))"
proof (induction regs rule: rev_induct)
  case Nil
  then show ?case
    by (simp add: registerAll_def lookupLocal_def emptySymbolTable_def)
next
  case (snoc r regs)
  obtain f' n' i k where r: "r = (f', n', i, k)"
    by (cases r) auto
  show ?case
    using snoc
    by (auto simp: r registerAll_snoc register_def lookupLocal_def split: list.splits)
qed

lemma lookupGlobal_registerAll:
  "lookupGlobal (registerAll regs) n =
     map (\<lambda>(f, n', i, k). \<lparr> sd_name = n', sd_nodeId = i, sd_filePath = f, sd_kind = k \<rparr>)
       (filter (\<lambda>(f, n', i, k). n' = n) regs)"
proof (induction regs rule: rev_induct)
  case Nil
  then show ?case
    by (simp add: registerAll_def lookupGlobal_def emptySymbolTable_def)
next
  case (snoc r regs)
  obtain f' n' i k where r: "r = (f', n', i, k)"
    by (cases r) auto
  show ?case
    using snoc
    by (auto simp: r registerAll_snoc register_def lookupGlobal_def)
qed

lemma lookupLocal_unique:
  assumes "(a, foo, idA, k) \<in> set regs"
    and "\<forall>i' k'. (a, foo, i', k') \<in> set regs \<longrightarrow> i' = idA"
  shows "lookupLocal (registerAll regs) a foo = Some idA"
proof -
  let ?hits = "filter (\<lambda>(f', n', i, k). f' = a \<and> n' = foo) regs"
  from assms(1) have ne: "?hits \<noteq> []"
    by (auto simp: filter_empty_conv)
  then have "last ?hits \<in> set ?hits"
    by (rule last_in_set)
  then obtain i' k' where "last ?hits = (a, foo, i', k')" "(a, foo, i', k') \<in> set regs"
    by auto
  with assms(2) have "fst (snd (snd (last ?hits))) = idA"
    by auto
  with ne show ?thesis
    by (cases ?hits) (simp_all add: lookupLocal_registerAll)
qed

lemma lookupLocal_registered:
  assumes "lookupLocal (registerAll regs) f n = Some i"
  shows "\<exists>k. (f, n, i, k) \<in> set regs"
proof -
  let ?hits = "filter (\<lambda>(f', n', i, k). f' = f \<and> n' = n) regs"
  from assms have ne: "?hits \<noteq> []" and i: "i = fst (snd (snd (last ?hits)))"
    by (auto simp: lookupLocal_registerAll split: list.splits)
  from ne have "last ?hits \<in> set ?hits"
    by (rule last_in_set)
  then show ?thesis
    using i by auto
qed

lemma globalFallback_registered:
  assumes "globalFallbackLookup (registerAll regs) n = Some i"
  shows "\<exists>f k. (f, n, i, k) \<in> set regs"
proof -
  let ?hits = "filter (\<lambda>(f, n', i, k). n' = n) regs"
  from assms obtain h hs where h: "?hits = h # hs" and i: "i = fst (snd (snd h))"
    by (auto simp: globalFallbackLookup_def lookupGlobal_registerAll split: list.splits)
  from h have "h \<in> set ?hits" by simp
  then have mem: "h \<in> set regs" and nm: "fst (snd h) = n"
    by auto
  obtain f n' i' k where hh: "h = (f, n', i', k)"
    by (cases h) auto
  from mem nm show ?thesis
    unfolding i hh by auto
qed

lemma lookupLocal_declared:
  assumes "(a, foo, idA, kind) \<in> set regs"
  shows "\<exists>i k. lookupLocal (registerAll regs) a foo = Some i \<and> (a, foo, i, k) \<in> set regs"
proof -
  let ?hits = "filter (\<lambda>(f', n', i, k). f' = a \<and> n' = foo) regs"
  from assms have "?hits \<noteq> []"
    by (auto simp: filter_empty_conv)
  then obtain r rs where "?hits = r # rs"
    by (cases ?hits) auto
  then have "lookupLocal (registerAll regs) a foo = Some (fst (snd (snd (last (r # rs)))))"
    by (simp add: lookupLocal_registerAll)
  then show ?thesis
    using lookupLocal_registered by blast
qed

text \<open>
  Claim C4. The three tiers are tried in the order import map, local scope, global
  fallback, and the first that matches decides: a match in the import map wins
  whatever the other two hold, a local match wins when the import map misses, the
  earliest registered global definition is taken when both miss, and the call is
  dropped when all three miss. In particular, when the import map of file \<open>b\<close> sends
  \<open>foo\<close> to file \<open>a\<close> and \<open>a\<close> declares \<open>foo\<close>, a call of \<open>foo\<close> in \<open>b\<close> is bound, by the
  import-map tier, to a node that \<open>a\<close> registered for \<open>foo\<close> (to the one there is, when \<open>a\<close>
  declares \<open>foo\<close> once), whatever else was registered: a \<open>foo\<close> of \<open>b\<close> itself or of any
  other file.
\<close>

theorem callResolver_priority:
  "(importMapLookup st importMaps calleeName enclosingFile = Some n \<longrightarrow>
      resolveCall st importMaps calleeName enclosingFile = Some (n, ImportMapTier)) \<and>
   (importMapLookup st importMaps calleeName enclosingFile = None \<and>
    localScopeLookup st calleeName enclosingFile = Some n \<longrightarrow>
      resolveCall st importMaps calleeName enclosingFile = Some (n, LocalScopeTier)) \<and>
   (importMapLookup st importMaps calleeName enclosingFile = None \<and>
    localScopeLookup st calleeName enclosingFile = None \<and> globalFallbackLookup st calleeName = Some n \<longrightarrow>
      resolveCall st importMaps calleeName enclosingFile = Some (n, GlobalFallbackTier)) \<and>
   (importMapLookup st importMaps calleeName enclosingFile = None \<and>
    localScopeLookup st calleeName enclosingFile = None \<and> globalFallbackLookup st calleeName = None \<longrightarrow>
      resolveCall st importMaps calleeName enclosingFile = None) \<and>
   (importMaps b foo = Some a \<and> (a, foo, idA, kind) \<in> set regs \<longrightarrow>
      (\<exists>i k. resolveCall (registerAll regs) importMaps foo b = Some (i, ImportMapTier) \<and>
             (a, foo, i, k) \<in> set regs)) \<and>
   (importMaps b foo = Some a \<and> (a, foo, idA, kind) \<in> set regs \<and>
    (\<forall>i' k'. (a, foo, i', k') \<in> set regs \<longrightarrow> i' = idA) \<longrightarrow>
      resolveCall (registerAll regs) importMaps foo b = Some (idA, ImportMapTier))"
proof -
  have "\<exists>i k. resolveCall (registerAll regs) importMaps foo b = Some (i, ImportMapTier) \<and>
             (a, foo, i, k) \<in> set regs"
    if "importMaps b foo = Some a" "(a, foo, idA, kind) \<in> set regs"
    using lookupLocal_declared [OF that(2)] that(1)
    by (auto simp: resolveCall_def importMapLookup_def)
  then show ?thesis
    by (auto simp: resolveCall_def importMapLookup_def lookupLocal_unique)
qed


text \<open>
  Files \<open>c.ts\<close>, \<open>a.ts\<close> and \<open>b.ts\<close> each declare \<open>foo\<close>, registered in that order, and
  \<open>b.ts\<close> imports \<open>foo\<close> from \<open>a.ts\<close>.
\<close>

theorem callResolver_priority_witness:
  "(let regs = [(''c.ts'', ''foo'', ''Function:c.ts:foo'', ''Function''),
                (''a.ts'', ''foo'', ''Function:a.ts:foo'', ''Function''),
                (''b.ts'', ''foo'', ''Function:b.ts:foo'', ''Function'')];
        st = registerAll regs;
        importMaps = (\<lambda>f. if f = ''b.ts'' then [''foo'' \<mapsto> ''a.ts''] else Map.empty)
    in lookupLocal st ''b.ts'' ''foo'' = Some ''Function:b.ts:foo'' \<and>
       map sd_nodeId (lookupGlobal st ''foo'') =
         [''Function:c.ts:foo'', ''Function:a.ts:foo'', ''Function:b.ts:foo''] \<and>
       resolveCall st importMaps ''foo'' ''b.ts'' = Some (''Function:a.ts:foo'', ImportMapTier) \<and>
       resolveCall st (\<lambda>f. Map.empty) ''foo'' ''b.ts'' = Some (''Function:b.ts:foo'', LocalScopeTier) \<and>
       resolveCall st importMaps ''foo'' ''d.ts'' = Some (''Function:c.ts:foo'', GlobalFallbackTier) \<and>
       resolveCall st importMaps ''bar'' ''b.ts'' = None)"
proof -
  define regs where "regs = [(''c.ts'', ''foo'', ''Function:c.ts:foo'', ''Function''),
                (''a.ts'', ''foo'', ''Function:a.ts:foo'', ''Function''),
                (''b.ts'', ''foo'', ''Function:b.ts:foo'', ''Function'')]"
  define st where "st = registerAll regs"
  define importMaps :: ImportMaps
    where "importMaps = (\<lambda>f. if f = ''b.ts'' then [''foo'' \<mapsto> ''a.ts''] else Map.empty)"
  have loc: "lookupLocal st ''b.ts'' ''foo'' = Some ''Function:b.ts:foo''"
    "lookupLocal st ''d.ts'' ''foo'' = None" "lookupLocal st ''b.ts'' ''bar'' = None"
    "lookupLocal st ''a.ts'' ''foo'' = Some ''Function:a.ts:foo''"
    by (simp_all add: st_def regs_def lookupLocal_registerAll)
  have glob: "map sd_nodeId (lookupGlobal st ''foo'') =
         [''Function:c.ts:foo'', ''Function:a.ts:foo'', ''Function:b.ts:foo'']"
    "lookupGlobal st ''bar'' = []"
    by (simp_all add: st_def regs_def lookupGlobal_registerAll)
  have imp: "importMaps ''b.ts'' ''foo'' = Some ''a.ts''" "importMaps ''d.ts'' ''foo'' = None"
    "importMaps ''b.ts'' ''bar'' = None"
    by (simp_all add: importMaps_def)
  have g: "globalFallbackLookup st ''foo'' = Some ''Function:c.ts:foo''"
    "globalFallbackLookup st ''bar'' = None"
    using glob by (auto simp: globalFallbackLookup_def split: list.splits)
  have t1: "resolveCall st importMaps ''foo'' ''b.ts'' = Some (''Function:a.ts:foo'', ImportMapTier)"
    using callResolver_priority [where importMaps = importMaps and b = "''b.ts''" and foo = "''foo''"
        and a = "''a.ts''" and idA = "''Function:a.ts:foo''" and kind = "''Function''" and regs = regs]
      imp
    unfolding st_def by (simp add: regs_def)
  have t2: "resolveCall st (\<lambda>f. Map.empty) ''foo'' ''b.ts'' = Some (''Function:b.ts:foo'', LocalScopeTier)"
    using callResolver_priority [where st = st and importMaps = "\<lambda>f. Map.empty" and calleeName = "''foo''"
        and enclosingFile = "''b.ts''" and n = "''Function:b.ts:foo''"] loc
    by (simp add: importMapLookup_def localScopeLookup_def)
  have t3: "resolveCall st importMaps ''foo'' ''d.ts'' = Some (''Function:c.ts:foo'', GlobalFallbackTier)"
    using callResolver_priority [where st = st and importMaps = importMaps and calleeName = "''foo''"
        and enclosingFile = "''d.ts''" and n = "''Function:c.ts:foo''"] loc imp g
    by (simp add: importMapLookup_def localScopeLookup_def)
  have t4: "resolveCall st importMaps ''bar'' ''b.ts'' = None"
    using callResolver_priority [where st = st and importMaps = importMaps and calleeName = "''bar''"
        and enclosingFile = "''b.ts''"] loc imp g
    by (simp add: importMapLookup_def localScopeLookup_def)
  show ?thesis
    unfolding Let_def regs_def [symmetric] st_def [symmetric] importMaps_def [symmetric]
    using loc glob t1 t2 t3 t4 by simp
qed

section \<open>Properties: the AST cache\<close>

lemma arg_min_list_strict:
  assumes "es \<noteq> []" "distinct (map ce_recency es)" "e \<in> set es" "e \<noteq> arg_min_list ce_recency es"
  shows "ce_recency (arg_min_list ce_recency es) < ce_recency e"
proof -
  let ?v = "arg_min_list ce_recency es"
  have v: "?v \<in> set es" using assms(1) by (rule arg_min_list_in)
  have "ce_recency ?v = Min (ce_recency ` set es)"
    using assms(1) by (rule f_arg_min_list_f)
  then have le: "ce_recency ?v \<le> ce_recency e"
    using assms(3) by simp
  have "inj_on ce_recency (set es)"
    using assms(2) by (simp add: distinct_map)
  with v assms(3,4) have "ce_recency ?v \<noteq> ce_recency e"
    by (auto dest: inj_onD)
  with le show ?thesis by simp
qed

lemma touch_paths:
  "map (ce_path \<circ> (\<lambda>e. if ce_path e = p then e\<lparr> ce_recency := k \<rparr> else e)) es = map ce_path es"
  by (induction es) simp_all

lemma replace_paths:
  "map (ce_path \<circ> (\<lambda>e. if ce_path e = p
       then \<lparr> ce_path = p, ce_tree = t, ce_recency = k \<rparr> else e)) es = map ce_path es"
  by (induction es) simp_all

lemma distinct_touched:
  assumes "distinct (map ce_path es)" "distinct (map ce_recency es)"
    "\<forall>e \<in> set es. ce_recency e < k"
  shows "distinct (map (\<lambda>e. if ce_path e = p then k else ce_recency e) es)"
  using assms
proof (induction es)
  case Nil
  then show ?case by simp
next
  case (Cons a es)
  then show ?case
    by (auto simp: image_iff split: if_splits)
qed

lemma touch_recency:
  assumes "distinct (map ce_path es)" "distinct (map ce_recency es)"
    "\<forall>e \<in> set es. ce_recency e < k"
  shows "distinct (map (ce_recency \<circ> (\<lambda>e. if ce_path e = p then e\<lparr> ce_recency := k \<rparr> else e)) es)"
proof -
  have "map (ce_recency \<circ> (\<lambda>e. if ce_path e = p then e\<lparr> ce_recency := k \<rparr> else e)) es =
      map (\<lambda>e. if ce_path e = p then k else ce_recency e) es"
    by (induction es) simp_all
  then show ?thesis
    using distinct_touched [OF assms, of p] by (simp only:)
qed

lemma replace_recency:
  assumes "distinct (map ce_path es)" "distinct (map ce_recency es)"
    "\<forall>e \<in> set es. ce_recency e < k"
  shows "distinct (map (ce_recency \<circ> (\<lambda>e. if ce_path e = p
       then \<lparr> ce_path = p, ce_tree = t, ce_recency = k \<rparr> else e)) es)"
proof -
  have "map (ce_recency \<circ> (\<lambda>e. if ce_path e = p
       then \<lparr> ce_path = p, ce_tree = t, ce_recency = k \<rparr> else e)) es =
      map (\<lambda>e. if ce_path e = p then k else ce_recency e) es"
    by (induction es) simp_all
  then show ?thesis
    using distinct_touched [OF assms, of p] by (simp only:)
qed

lemma cache_inv_get: "cache_inv c \<Longrightarrow> cache_inv (snd (cacheGet path c))"
  by (auto simp: cache_inv_def cacheGet_def touch_paths touch_recency
      list_all_iff less_Suc_eq split: option.splits)

lemma cache_inv_evict:
  assumes "cache_inv c" "entries c \<noteq> []"
  shows "distinct (map ce_path (entries (evictLRU c)))"
    "distinct (map ce_recency (entries (evictLRU c)))"
    "list_all (\<lambda>e. ce_recency e < clock c) (entries (evictLRU c))"
    "Suc (length (entries (evictLRU c))) = length (entries c)"
    "set (entries (evictLRU c)) \<subseteq> set (entries c)"
    "clock (evictLRU c) = clock c" "capacity (evictLRU c) = capacity c"
proof -
  let ?v = "arg_min_list ce_recency (entries c)"
  have v: "?v \<in> set (entries c)" using assms(2) by (rule arg_min_list_in)
  have e: "entries (evictLRU c) = remove1 ?v (entries c)"
    using assms(2) by (simp add: evictLRU_def Let_def)
  have dp: "distinct (map ce_path (entries c))" and dr: "distinct (map ce_recency (entries c))"
    and d: "distinct (entries c)"
    using assms(1) by (auto simp: cache_inv_def distinct_map)
  show "distinct (map ce_path (entries (evictLRU c)))"
    using dp unfolding e by (metis distinct_map distinct_remove1 inj_on_subset set_remove1_subset)
  show "distinct (map ce_recency (entries (evictLRU c)))"
    using dr unfolding e by (metis distinct_map distinct_remove1 inj_on_subset set_remove1_subset)
  show "list_all (\<lambda>e. ce_recency e < clock c) (entries (evictLRU c))"
    using assms(1) unfolding e cache_inv_def list_all_iff
    by (meson notin_set_remove1)
  show "Suc (length (entries (evictLRU c))) = length (entries c)"
    unfolding e using v by (simp add: length_remove1) (metis Suc_pred length_pos_if_in_set)
  show "set (entries (evictLRU c)) \<subseteq> set (entries c)"
    unfolding e by (rule set_remove1_subset)
  show "clock (evictLRU c) = clock c" "capacity (evictLRU c) = capacity c"
    using assms(2) by (simp_all add: evictLRU_def Let_def)
qed

lemma find_path_None: "find (\<lambda>e. ce_path e = path) es = None \<longleftrightarrow> path \<notin> ce_path ` set es"
  by (auto simp: find_None_iff)

lemma cache_inv_set: 
  assumes "cache_inv c"
  shows "cache_inv (cacheSet path tree c)"
proof (cases "find (\<lambda>e. ce_path e = path) (entries c)")
  case (Some old)
  with assms show ?thesis
    by (auto simp: cache_inv_def cacheSet_def replace_paths replace_recency
      list_all_iff less_Suc_eq)
next
  case None
  then have fresh: "path \<notin> ce_path ` set (entries c)"
    by (simp add: find_path_None)
  show ?thesis
  proof (cases "capacity c \<le> length (entries c)")
    case True
    with assms have ne: "entries c \<noteq> []"
      by (auto simp: cache_inv_def)
    note ev = cache_inv_evict [OF assms ne]
    have "cacheSet path tree c =
        (evictLRU c)\<lparr> entries := entries (evictLRU c) @
                       [\<lparr> ce_path = path, ce_tree = tree, ce_recency = clock c \<rparr>],
                  clock := Suc (clock c) \<rparr>"
      using None True by (simp add: cacheSet_def Let_def)
    moreover have "path \<notin> ce_path ` set (entries (evictLRU c))"
      using fresh ev(5) by auto
    moreover have "clock c \<notin> ce_recency ` set (entries (evictLRU c))"
      using ev(3) by (auto simp: list_all_iff)
    moreover have "length (entries (evictLRU c)) < capacity c"
      using ev(4) assms by (simp add: cache_inv_def)
    ultimately show ?thesis
      using ev assms by (auto simp: cache_inv_def list_all_iff less_Suc_eq)
  next
    case False
    then have "cacheSet path tree c =
        c\<lparr> entries := entries c @ [\<lparr> ce_path = path, ce_tree = tree, ce_recency = clock c \<rparr>],
           clock := Suc (clock c) \<rparr>"
      using None by (simp add: cacheSet_def Let_def)
    then show ?thesis
      using assms fresh False by (auto simp: cache_inv_def list_all_iff less_Suc_eq)
  qed
qed

lemma cache_inv_runOps: "0 < C \<Longrightarrow> cache_inv (runOps C ops)"
proof (induction ops rule: rev_induct)
  case Nil
  then show ?case by (simp add: runOps_def cache_inv_def emptyCache_def)
next
  case (snoc op ops)
  then show ?case
    by (cases op) (simp_all add: runOps_def cache_inv_get cache_inv_set)
qed


lemma capacity_get [simp]: "capacity (snd (cacheGet path c)) = capacity c"
  by (simp add: cacheGet_def split: option.splits)

lemma capacity_evict [simp]: "capacity (evictLRU c) = capacity c"
  by (simp add: evictLRU_def Let_def)

lemma capacity_set [simp]: "capacity (cacheSet path tree c) = capacity c"
  by (simp add: cacheSet_def Let_def split: option.splits)

lemma capacity_runOps [simp]: "capacity (runOps C ops) = C"
proof (induction ops rule: rev_induct)
  case Nil
  then show ?case by (simp add: runOps_def emptyCache_def)
next
  case (snoc op ops)
  then show ?case by (cases op) (simp_all add: runOps_def)
qed

lemma find_hit:
  "distinct (map ce_path es) \<Longrightarrow> hit \<in> set es \<Longrightarrow>
   find (\<lambda>e. ce_path e = ce_path hit) es = Some hit"
  by (induction es) (auto simp: image_iff)

lemma set_at_capacity:
  assumes inv: "cache_inv c" and fresh: "path \<notin> ce_path ` set (entries c)"
    and full: "length (entries c) = capacity c"
  shows "\<exists>victim \<in> set (entries c).
           (\<forall>e \<in> set (entries c). e \<noteq> victim \<longrightarrow> ce_recency victim < ce_recency e) \<and>
           evictLRU c = c\<lparr> entries := remove1 victim (entries c),
                             released := released c @ [ce_tree victim] \<rparr> \<and>
           cacheSet path tree c =
             (evictLRU c)\<lparr> entries := entries (evictLRU c) @
                               [\<lparr> ce_path = path, ce_tree = tree, ce_recency = clock c \<rparr>],
                             clock := Suc (clock c) \<rparr> \<and>
           released (cacheSet path tree c) = released c @ [ce_tree victim] \<and>
           length (entries (cacheSet path tree c)) = capacity c \<and>
           victim \<notin> set (entries (cacheSet path tree c))"
proof -
  let ?v = "arg_min_list ce_recency (entries c)"
  from inv full have ne: "entries c \<noteq> []"
    by (auto simp: cache_inv_def)
  have v: "?v \<in> set (entries c)" using ne by (rule arg_min_list_in)
  have dr: "distinct (map ce_recency (entries c))" and d: "distinct (entries c)"
    using inv by (auto simp: cache_inv_def distinct_map)
  have least: "\<forall>e \<in> set (entries c). e \<noteq> ?v \<longrightarrow> ce_recency ?v < ce_recency e"
    using arg_min_list_strict [OF ne dr] by blast
  have ev: "evictLRU c = c\<lparr> entries := remove1 ?v (entries c),
                             released := released c @ [ce_tree ?v] \<rparr>"
    using ne by (simp add: evictLRU_def Let_def)
  have none: "find (\<lambda>e. ce_path e = path) (entries c) = None"
    using fresh by (simp add: find_path_None)
  have st: "cacheSet path tree c =
             (evictLRU c)\<lparr> entries := entries (evictLRU c) @
                               [\<lparr> ce_path = path, ce_tree = tree, ce_recency = clock c \<rparr>],
                             clock := Suc (clock c) \<rparr>"
    using none full by (simp add: cacheSet_def Let_def)
  have rel: "released (cacheSet path tree c) = released c @ [ce_tree ?v]"
    unfolding st by (simp add: ev)
  have len: "length (entries (cacheSet path tree c)) = capacity c"
    unfolding st using v full ne by (simp add: ev length_remove1) (metis Suc_pred length_greater_0_conv)
  have other: "ce_path ?v \<noteq> path"
    using v fresh by auto
  have gone: "?v \<notin> set (entries (cacheSet path tree c))"
    unfolding st using d other by (auto simp: ev)
  from v least ev st rel len gone show ?thesis
    by blast
qed

lemma get_hit:
  assumes inv: "cache_inv c" and hit: "hit \<in> set (entries c)"
  shows "fst (cacheGet (ce_path hit) c) = Some (ce_tree hit) \<and>
         released (snd (cacheGet (ce_path hit) c)) = released c \<and>
         hit\<lparr> ce_recency := clock c \<rparr> \<in> set (entries (snd (cacheGet (ce_path hit) c))) \<and>
         (\<forall>e \<in> set (entries (snd (cacheGet (ce_path hit) c))).
            ce_path e \<noteq> ce_path hit \<longrightarrow> e \<in> set (entries c) \<and> ce_recency e < clock c)"
proof -
  have dp: "distinct (map ce_path (entries c))"
    and old: "\<forall>e \<in> set (entries c). ce_recency e < clock c"
    using inv by (auto simp: cache_inv_def list_all_iff)
  have f: "find (\<lambda>e. ce_path e = ce_path hit) (entries c) = Some hit"
    using dp hit by (rule find_hit)
  show ?thesis
    using hit old by (auto simp: cacheGet_def f image_iff split: if_splits)
qed

text \<open>
  Claim C3. After any sequence of \<open>get\<close> and \<open>set\<close> operations on an empty cache of
  capacity \<open>C > 0\<close>, the cache holds at most \<open>C\<close> entries. A \<open>set\<close> of a path that is not
  cached, performed when the cache holds \<open>C\<close> entries, evicts exactly one entry, the
  one whose recency marker is less than every other entry's; its release is invoked
  once (the release log grows by that handle alone), in the \<open>evictLRU\<close> step that comes
  before the new entry is added, and the cache again holds \<open>C\<close> entries, the evicted
  one not among them. A \<open>get\<close> that hits returns the tree, releases nothing and gives
  the entry the newest marker, greater than that of every other entry, which stay as
  they were.
\<close>

theorem astCache_lru:
  assumes "0 < C"
  shows "let c = runOps C ops in
     length (entries c) \<le> C \<and>
     (\<forall>path tree. path \<notin> ce_path ` set (entries c) \<and> length (entries c) = C \<longrightarrow>
        (\<exists>victim \<in> set (entries c).
           (\<forall>e \<in> set (entries c). e \<noteq> victim \<longrightarrow> ce_recency victim < ce_recency e) \<and>
           evictLRU c = c\<lparr> entries := remove1 victim (entries c),
                             released := released c @ [ce_tree victim] \<rparr> \<and>
           cacheSet path tree c =
             (evictLRU c)\<lparr> entries := entries (evictLRU c) @
                               [\<lparr> ce_path = path, ce_tree = tree, ce_recency = clock c \<rparr>],
                             clock := Suc (clock c) \<rparr> \<and>
           released (cacheSet path tree c) = released c @ [ce_tree victim] \<and>
           length (entries (cacheSet path tree c)) = C \<and>
           victim \<notin> set (entries (cacheSet path tree c)))) \<and>
     (\<forall>hit \<in> set (entries c).
        fst (cacheGet (ce_path hit) c) = Some (ce_tree hit) \<and>
        released (snd (cacheGet (ce_path hit) c)) = released c \<and>
        hit\<lparr> ce_recency := clock c \<rparr> \<in> set (entries (snd (cacheGet (ce_path hit) c))) \<and>
        (\<forall>e \<in> set (entries (snd (cacheGet (ce_path hit) c))).
           ce_path e \<noteq> ce_path hit \<longrightarrow> e \<in> set (entries c) \<and> ce_recency e < clock c))"
proof -
  define c where "c = runOps C ops"
  have inv: "cache_inv c"
    unfolding c_def using assms by (rule cache_inv_runOps)
  have cap: "capacity c = C"
    by (simp add: c_def)
  have a: "length (entries c) \<le> C"
    using inv cap by (simp add: cache_inv_def)
  have b: "\<exists>victim \<in> set (entries c).
           (\<forall>e \<in> set (entries c). e \<noteq> victim \<longrightarrow> ce_recency victim < ce_recency e) \<and>
           evictLRU c = c\<lparr> entries := remove1 victim (entries c),
                             released := released c @ [ce_tree victim] \<rparr> \<and>
           cacheSet path tree c =
             (evictLRU c)\<lparr> entries := entries (evictLRU c) @
                               [\<lparr> ce_path = path, ce_tree = tree, ce_recency = clock c \<rparr>],
                             clock := Suc (clock c) \<rparr> \<and>
           released (cacheSet path tree c) = released c @ [ce_tree victim] \<and>
           length (entries (cacheSet path tree c)) = C \<and>
           victim \<notin> set (entries (cacheSet path tree c))"
    if "path \<notin> ce_path ` set (entries c)" "length (entries c) = C" for path tree
    using set_at_capacity [OF inv that(1), of tree] that(2) cap by simp
  show ?thesis
    unfolding Let_def c_def [symmetric]
    using a b get_hit [OF inv] by blast
qed


text \<open>
  Capacity 2: \<open>a.ts\<close> and \<open>b.ts\<close> are set, \<open>a.ts\<close> is read, and the set of \<open>c.ts\<close>
  evicts \<open>b.ts\<close>, releasing its handle \<open>2\<close>.
\<close>

theorem astCache_lru_witness:
  "(let c = runOps 2 [OpSet ''a.ts'' (1::nat), OpSet ''b.ts'' 2, OpGet ''a.ts''];
        c' = cacheSet ''c.ts'' 3 c
    in entries c = [\<lparr> ce_path = ''a.ts'', ce_tree = 1, ce_recency = 2 \<rparr>,
                    \<lparr> ce_path = ''b.ts'', ce_tree = 2, ce_recency = 1 \<rparr>] \<and>
       released c = [] \<and>
       length (entries c) \<le> 2 \<and>
       entries c' = [\<lparr> ce_path = ''a.ts'', ce_tree = 1, ce_recency = 2 \<rparr>,
                     \<lparr> ce_path = ''c.ts'', ce_tree = 3, ce_recency = 3 \<rparr>] \<and>
       released c' = [2])"
proof -
  define c :: "nat ASTCache"
    where "c = runOps 2 [OpSet ''a.ts'' (1::nat), OpSet ''b.ts'' 2, OpGet ''a.ts'']"
  have c: "c = \<lparr> capacity = 2,
                entries = [\<lparr> ce_path = ''a.ts'', ce_tree = 1, ce_recency = 2 \<rparr>,
                           \<lparr> ce_path = ''b.ts'', ce_tree = 2, ce_recency = 1 \<rparr>],
                clock = 3, released = [] \<rparr>"
    by (simp add: c_def runOps_def emptyCache_def cacheSet_def cacheGet_def Let_def)
  have s: "cacheSet ''c.ts'' 3 c = \<lparr> capacity = 2,
                entries = [\<lparr> ce_path = ''a.ts'', ce_tree = 1, ce_recency = 2 \<rparr>,
                           \<lparr> ce_path = ''c.ts'', ce_tree = 3, ce_recency = 3 \<rparr>],
                clock = 4, released = [2] \<rparr>"
    by (simp add: c cacheSet_def evictLRU_def Let_def)
  let ?a = "\<lparr> ce_path = ''a.ts'', ce_tree = 1::nat, ce_recency = 2 \<rparr>"
  let ?b = "\<lparr> ce_path = ''b.ts'', ce_tree = 2::nat, ce_recency = 1 \<rparr>"
  have fresh: "''c.ts'' \<notin> ce_path ` set (entries c)" and full: "length (entries c) = 2"
    by (simp_all add: c)
  note t = astCache_lru [of 2 "[OpSet ''a.ts'' (1::nat), OpSet ''b.ts'' 2, OpGet ''a.ts'']",
      OF zero_less_numeral, unfolded Let_def c_def [symmetric]]
  have bound: "length (entries c) \<le> 2"
    using t by blast
  have "\<exists>victim \<in> set (entries c).
           (\<forall>e \<in> set (entries c). e \<noteq> victim \<longrightarrow> ce_recency victim < ce_recency e) \<and>
           released (cacheSet ''c.ts'' 3 c) = released c @ [ce_tree victim]"
    using t fresh full by blast
  then obtain victim where victim: "victim \<in> set (entries c)"
    "\<forall>e \<in> set (entries c). e \<noteq> victim \<longrightarrow> ce_recency victim < ce_recency e"
    "released (cacheSet ''c.ts'' 3 c) = released c @ [ce_tree victim]"
    by blast
  have "victim = ?b"
    using victim(1,2) by (auto simp: c)
  with victim(3) have rel: "released (cacheSet ''c.ts'' 3 c) = [2]"
    by (simp add: c)
  show ?thesis
    unfolding Let_def c_def [symmetric] using bound rel by (simp add: s) (simp add: c)
qed

section \<open>Properties: edges of a pipeline run\<close>

lemma idsOf_simps [simp]:
  "idsOf [] = {}" "idsOf (AddNode n # ops) = insert (n_id n) (idsOf ops)"
  "idsOf (AddEdge e # ops) = idsOf ops"
  by (simp_all add: idsOf_def)

lemma nodesOf_append [simp]: "nodesOf (a @ b) = nodesOf a @ nodesOf b"
  by (induction a rule: nodesOf.induct) simp_all

lemma edgesOf_append [simp]: "edgesOf (a @ b) = edgesOf a @ edgesOf b"
  by (induction a rule: edgesOf.induct) simp_all

lemma idsOf_append [simp]: "idsOf (a @ b) = idsOf a \<union> idsOf b"
  by (auto simp: idsOf_def)

lemma idsOf_concat: "idsOf (concat xss) = (\<Union>xs \<in> set xss. idsOf xs)"
  by (induction xss) simp_all

lemma endpointsPresent_append:
  "endpointsPresent S (a @ b) \<longleftrightarrow> endpointsPresent S a \<and> endpointsPresent (S \<union> idsOf a) b"
proof (induction a arbitrary: S)
  case Nil
  then show ?case by simp
next
  case (Cons op a)
  then show ?case by (cases op) (auto simp: insert_commute Un_commute)
qed

lemma endpointsPresent_mono:
  "endpointsPresent S ops \<Longrightarrow> S \<subseteq> T \<Longrightarrow> endpointsPresent T ops"
proof (induction ops arbitrary: S T)
  case Nil
  then show ?case by simp
next
  case (Cons op ops)
  show ?case
  proof (cases op)
    case (AddNode n)
    with Cons.prems have "endpointsPresent (insert (n_id n) S) ops" by simp
    moreover have "insert (n_id n) S \<subseteq> insert (n_id n) T" using Cons.prems by auto
    ultimately have "endpointsPresent (insert (n_id n) T) ops" by (rule Cons.IH)
    with AddNode show ?thesis by simp
  next
    case (AddEdge e)
    with Cons.prems Cons.IH [of S T] show ?thesis by auto
  qed
qed

lemma endpointsPresent_concat:
  "(\<And>xs. xs \<in> set xss \<Longrightarrow> endpointsPresent S xs) \<Longrightarrow> endpointsPresent S (concat xss)"
proof (induction xss)
  case Nil
  then show ?case by simp
next
  case (Cons xs xss)
  have "endpointsPresent S xs" using Cons.prems by simp
  moreover have "endpointsPresent S (concat xss)" using Cons by simp
  then have "endpointsPresent (S \<union> idsOf xs) (concat xss)"
    by (rule endpointsPresent_mono) simp
  ultimately show ?case by (simp add: endpointsPresent_append)
qed

lemma endpointsPresent_edges:
  "endpointsPresent S ops \<Longrightarrow> e \<in> set (edgesOf ops) \<Longrightarrow>
   r_from e \<in> S \<union> idsOf ops \<and> r_to e \<in> S \<union> idsOf ops"
proof (induction ops arbitrary: S)
  case Nil
  then show ?case by simp
next
  case (Cons op ops)
  then show ?case by (cases op) fastforce+
qed

lemma walkFolders_present:
  assumes "folderId cp ` set seen \<subseteq> S"
    and "\<And>p. parent = Some p \<Longrightarrow> folderId cp p \<in> S"
    and "walkFolders cp parent ds seen = (ops, seen')"
  shows "endpointsPresent S ops \<and> folderId cp ` set seen' \<subseteq> S \<union> idsOf ops \<and>
         set ds \<subseteq> set seen' \<and> set seen \<subseteq> set seen'"
  using assms
proof (induction ds arbitrary: parent seen S ops seen')
  case Nil
  then show ?case by auto
next
  case (Cons d ds)
  let ?here = "if d \<in> set seen then []
                  else AddNode (folderNode cp d) #
                       (case parent of
                          None \<Rightarrow> []
                        | Some p \<Rightarrow> [AddEdge (edge CONTAINS (folderId cp p) (folderId cp d))])"
  let ?seen1 = "if d \<in> set seen then seen else d # seen"
  obtain rest seen2 where rec: "walkFolders cp (Some d) ds ?seen1 = (rest, seen2)"
    by (cases "walkFolders cp (Some d) ds ?seen1")
  have ops: "ops = ?here @ rest" and seen': "seen' = seen2"
    using Cons.prems(3) rec by (simp_all add: Let_def)
  have here: "endpointsPresent S ?here"
    using Cons.prems(2) by (auto simp: folderNode_def edge_def split: option.splits)
  have ids: "folderId cp ` set ?seen1 \<subseteq> S \<union> idsOf ?here"
    using Cons.prems(1) by (auto simp: folderNode_def)
  have d: "folderId cp d \<in> S \<union> idsOf ?here"
    using Cons.prems(1) by (auto simp: folderNode_def)
  have ih: "endpointsPresent (S \<union> idsOf ?here) rest \<and>
      folderId cp ` set seen2 \<subseteq> (S \<union> idsOf ?here) \<union> idsOf rest \<and>
      set ds \<subseteq> set seen2 \<and> set ?seen1 \<subseteq> set seen2"
    using Cons.IH [OF ids _ rec] d by simp
  show ?case
    unfolding ops seen' using here ih
    by (auto simp: endpointsPresent_append split: if_splits)
qed

lemma folderPrefixes_nonempty: "folderPrefixes path \<noteq> []"
  by (cases "butlast (splitPath path)") (simp_all add: folderPrefixes_def)

lemma structurePath_present:
  assumes "folderId cp ` set seen \<subseteq> S" and "structurePath cp file seen = (ops, seen')"
  shows "endpointsPresent S ops \<and> folderId cp ` set seen' \<subseteq> S \<union> idsOf ops \<and>
         fileId cp (fst file) \<in> idsOf ops"
proof -
  obtain w seen2 where w: "walkFolders cp None (folderPrefixes (fst file)) seen = (w, seen2)"
    by (cases "walkFolders cp None (folderPrefixes (fst file)) seen")
  have ops: "ops = w @ [AddNode (fileNode cp (fst file) (snd file)),
                  AddEdge (edge CONTAINS (folderId cp (last (folderPrefixes (fst file))))
                            (fileId cp (fst file)))]"
    and seen': "seen' = seen2"
    using assms(2) w by (simp_all add: structurePath_def)
  have wf: "endpointsPresent S w \<and> folderId cp ` set seen2 \<subseteq> S \<union> idsOf w \<and>
         set (folderPrefixes (fst file)) \<subseteq> set seen2 \<and> set seen \<subseteq> set seen2"
    using walkFolders_present [OF assms(1) _ w] by simp
  have "last (folderPrefixes (fst file)) \<in> set seen2"
    using wf folderPrefixes_nonempty [of "fst file"] last_in_set by blast
  then have parent: "folderId cp (last (folderPrefixes (fst file))) \<in> S \<union> idsOf w"
    using wf by blast
  show ?thesis
    unfolding ops seen' using wf parent
    by (auto simp: endpointsPresent_append fileNode_def edge_def)
qed

lemma structureOps_present:
  assumes "folderId cp ` set seen \<subseteq> S"
  shows "endpointsPresent S (structureOps cp files seen) \<and>
         fileId cp ` fst ` set files \<subseteq> idsOf (structureOps cp files seen)"
  using assms
proof (induction files arbitrary: seen S)
  case Nil
  then show ?case by simp
next
  case (Cons fl files)
  obtain ops seen' where sp: "structurePath cp fl seen = (ops, seen')"
    by (cases "structurePath cp fl seen")
  note one = structurePath_present [OF Cons.prems sp]
  have ih: "endpointsPresent (S \<union> idsOf ops) (structureOps cp files seen') \<and>
         fileId cp ` fst ` set files \<subseteq> idsOf (structureOps cp files seen')"
    using Cons.IH [of seen' "S \<union> idsOf ops"] one by blast
  show ?case
    using one ih by (auto simp: sp endpointsPresent_append)
qed


lemma parsedFiles_subset: "set (parsedFiles cp files) \<subseteq> set files"
  by (auto simp: parsedFiles_def)

lemma parseOps_present:
  assumes "fileId cp ` fst ` set files \<subseteq> S"
  shows "endpointsPresent S (parseOps cp files)"
  unfolding parseOps_def
proof (intro endpointsPresent_concat, goal_cases)
  case (1 xs)
  then obtain fl where fl: "fl \<in> set (parsedFiles cp files)"
    and xs: "xs = concat (map (\<lambda>d.
         [AddNode (symbolNode cp (fst fl) d),
          AddEdge (edge DEFINES (fileId cp (fst fl)) (symbolId cp (fst fl) d))])
       (declarations cp fl))"
    by auto
  from fl assms have "fileId cp (fst fl) \<in> S"
    using parsedFiles_subset by blast
  then show ?case
    unfolding xs
    by (intro endpointsPresent_concat) (auto simp: symbolNode_def edge_def)
qed

lemma registrations_ids:
  "(f, n, i, k) \<in> set (registrations cp files) \<Longrightarrow> i \<in> idsOf (parseOps cp files)"
  by (auto simp: registrations_def parseOps_def idsOf_concat symbolNode_def)

lemma resolveImport_path: "resolveImport paths exts specifier = Some target \<Longrightarrow> target \<in> set paths"
  by (auto simp: resolveImport_def find_Some_iff)

lemma importOps_present:
  assumes "fileId cp ` fst ` set files \<subseteq> S"
  shows "endpointsPresent S (importOps cp files)"
  unfolding importOps_def
proof (intro endpointsPresent_concat, goal_cases)
  case (1 xs)
  then obtain fl where fl: "fl \<in> set (parsedFiles cp files)"
    and xs: "xs = map (\<lambda>(alias, target).
         AddEdge (edge IMPORTS (fileId cp (fst fl)) (fileId cp target)))
       (resolvedImports cp (map fst files) fl)"
    by auto
  from fl assms have src: "fileId cp (fst fl) \<in> S"
    using parsedFiles_subset by blast
  have tgt: "fileId cp target \<in> S" if "(al, target) \<in> set (resolvedImports cp (map fst files) fl)"
    for al target
  proof -
    from that obtain specifier where
      "resolveImport (map fst files) (extensions cp) specifier = Some target"
      by (auto simp: resolvedImports_def split: option.splits)
    then have "target \<in> fst ` set files"
      using resolveImport_path by fastforce
    with assms show ?thesis by blast
  qed
  have "endpointsPresent S (map (\<lambda>(alias, target).
         AddEdge (edge IMPORTS (fileId cp (fst fl)) (fileId cp target))) rs)"
    if "set rs \<subseteq> set (resolvedImports cp (map fst files) fl)" for rs
    using that
  proof (induction rs)
    case Nil
    then show ?case by simp
  next
    case (Cons r rs)
    then show ?case
      using src tgt by (cases r) (auto simp: edge_def)
  qed
  then show ?case
    unfolding xs by simp
qed

lemma resolveCall_registered:
  assumes "resolveCall (registerAll regs) importMaps calleeName enclosingFile = Some (i, t)"
  shows "\<exists>f n k. (f, n, i, k) \<in> set regs"
proof -
  from assms consider f where "lookupLocal (registerAll regs) f calleeName = Some i"
    | "globalFallbackLookup (registerAll regs) calleeName = Some i"
    by (auto simp: resolveCall_def importMapLookup_def localScopeLookup_def split: option.splits)
  then show ?thesis
  proof cases
    case 1
    then show ?thesis using lookupLocal_registered by blast
  next
    case 2
    then show ?thesis using globalFallback_registered by blast
  qed
qed

lemma callOps_present:
  assumes "fileId cp ` fst ` set files \<subseteq> S" and "idsOf (parseOps cp files) \<subseteq> S"
  shows "endpointsPresent S (callOps cp files)"
  unfolding callOps_def
proof (intro endpointsPresent_concat, goal_cases)
  case (1 xs)
  then obtain fl where fl: "fl \<in> set (parsedFiles cp files)"
    and xs: "xs = concat (map (\<lambda>calleeName.
         (case resolveCall (registerAll (registrations cp files)) (importMapsOf cp files)
                 calleeName (fst fl) of
            None \<Rightarrow> []
          | Some (nodeId, t) \<Rightarrow> [AddEdge (edge CALLS (fileId cp (fst fl)) nodeId)]))
       (callsOf cp (fst fl) (snd fl)))"
    by auto
  from fl assms(1) have src: "fileId cp (fst fl) \<in> S"
    using parsedFiles_subset by blast
  show ?case
    unfolding xs
  proof (intro endpointsPresent_concat, goal_cases)
    case (1 ys)
    then obtain calleeName where ys: "ys =
        (case resolveCall (registerAll (registrations cp files)) (importMapsOf cp files)
                 calleeName (fst fl) of
            None \<Rightarrow> []
          | Some (nodeId, t) \<Rightarrow> [AddEdge (edge CALLS (fileId cp (fst fl)) nodeId)])"
      by auto
    show ?case
    proof (cases "resolveCall (registerAll (registrations cp files)) (importMapsOf cp files)
                 calleeName (fst fl)")
      case None
      then show ?thesis by (simp add: ys)
    next
      case (Some r)
      obtain i t where r: "r = (i, t)" by (cases r)
      from resolveCall_registered [OF Some [unfolded r]] registrations_ids assms(2)
      have "i \<in> S" by blast
      with src show ?thesis by (simp add: ys Some r edge_def)
    qed
  qed
qed

text \<open>
  Claim C6. In the sequence of node and edge creations of a pipeline run, every edge is
  created when both its endpoints are ids of nodes created earlier in the sequence;
  this holds of the whole run and of the run cut after any number \<open>k\<close> of creations.
  Consequently every endpoint of every edge of the final edge set is the id of a node
  of the final node set.
\<close>

theorem pipeline_endpoints_present:
  "endpointsPresent {} (pipelineOps cp files) \<and>
   endpointsPresent {} (take k (pipelineOps cp files)) \<and>
   (\<forall>e \<in> set (edgesOf (pipelineOps cp files)).
      r_from e \<in> n_id ` set (nodesOf (pipelineOps cp files)) \<and>
      r_to e \<in> n_id ` set (nodesOf (pipelineOps cp files)))"
proof -
  let ?s = "structureOps cp files []" and ?p = "parseOps cp files"
  have s: "endpointsPresent {} ?s" and files: "fileId cp ` fst ` set files \<subseteq> idsOf ?s"
    using structureOps_present [of cp "[]" "{}" files] by simp_all
  have p: "endpointsPresent (idsOf ?s) ?p"
    using files by (rule parseOps_present)
  have i: "endpointsPresent (idsOf ?s \<union> idsOf ?p) (importOps cp files)"
    using files by (intro importOps_present) auto
  have c: "endpointsPresent (idsOf ?s \<union> idsOf ?p \<union> idsOf (importOps cp files)) (callOps cp files)"
    using files by (intro callOps_present) auto
  have all: "endpointsPresent {} (pipelineOps cp files)"
    using s p i c by (simp add: pipelineOps_def endpointsPresent_append Un_assoc)
  have "endpointsPresent {} (take k (pipelineOps cp files) @ drop k (pipelineOps cp files))"
    using all by simp
  then have pre: "endpointsPresent {} (take k (pipelineOps cp files))"
    unfolding endpointsPresent_append by blast
  show ?thesis
    using all pre endpointsPresent_edges [OF all] by (auto simp: idsOf_def)
qed


text \<open>
  The end-to-end example of the specification: \<open>a.ts\<close> declares \<open>foo\<close>; \<open>b.ts\<close> imports
  \<open>foo\<close> from \<open>a\<close> and calls \<open>foo\<close> and an undefined \<open>bar\<close>.
\<close>

theorem pipeline_endpoints_present_witness:
  "(let cp = \<lparr> declarationsOf = (\<lambda>path content.
                    if path = ''a.ts''
                    then Some [\<lparr> dc_name = ''foo'', dc_label = Function, dc_kind = ''function'',
                                 dc_startLine = 1, dc_endLine = 1, dc_content = content \<rparr>]
                    else Some []),
                 importsOf = (\<lambda>path content. if path = ''b.ts'' then [(''a'', ''foo'')] else []),
                 callsOf = (\<lambda>path content. if path = ''b.ts'' then [''foo'', ''bar''] else []),
                 extensions = [''.ts''],
                 folderId = (\<lambda>d. ''Folder:'' @ d),
                 fileId = (\<lambda>p. ''File:'' @ p),
                 symbolId = (\<lambda>p d. ''Function:'' @ dc_name d) \<rparr>;
        ops = pipelineOps cp [(''a.ts'', ''A''), (''b.ts'', ''B'')]
    in map n_id (nodesOf ops) = [''Folder:'', ''File:a.ts'', ''File:b.ts'', ''Function:foo''] \<and>
       map (\<lambda>e. (r_type e, r_from e, r_to e)) (edgesOf ops) =
         [(CONTAINS, ''Folder:'', ''File:a.ts''), (CONTAINS, ''Folder:'', ''File:b.ts''),
          (DEFINES, ''File:a.ts'', ''Function:foo''), (IMPORTS, ''File:b.ts'', ''File:a.ts''),
          (CALLS, ''File:b.ts'', ''Function:foo'')] \<and>
       endpointsPresent {} ops)"
proof -
  define cp where "cp = \<lparr> declarationsOf = (\<lambda>path content.
                    if path = ''a.ts''
                    then Some [\<lparr> dc_name = ''foo'', dc_label = Function, dc_kind = ''function'',
                                 dc_startLine = 1, dc_endLine = 1, dc_content = content \<rparr>]
                    else Some []),
                 importsOf = (\<lambda>path content. if path = ''b.ts'' then [(''a'', ''foo'')] else []),
                 callsOf = (\<lambda>path content. if path = ''b.ts'' then [''foo'', ''bar''] else []),
                 extensions = [''.ts''],
                 folderId = (\<lambda>d. ''Folder:'' @ d),
                 fileId = (\<lambda>p. ''File:'' @ p),
                 symbolId = (\<lambda>p d. ''Function:'' @ dc_name d) \<rparr>"
  define files where "files = [(''a.ts'', ''A''), (''b.ts'', ''B'')]"
  have pre: "folderPrefixes ''a.ts'' = [[]]" "folderPrefixes ''b.ts'' = [[]]"
    by (simp_all add: folderPrefixes_def)
  have st: "map n_id (nodesOf (structureOps cp files [])) = [''Folder:'', ''File:a.ts'', ''File:b.ts'']"
    "map (\<lambda>e. (r_type e, r_from e, r_to e)) (edgesOf (structureOps cp files [])) =
       [(CONTAINS, ''Folder:'', ''File:a.ts''), (CONTAINS, ''Folder:'', ''File:b.ts'')]"
    by (simp_all add: files_def structurePath_def pre folderNode_def fileNode_def edge_def cp_def)
  have parsed: "parsedFiles cp files = files"
    by (simp add: parsedFiles_def files_def cp_def)
  have decls: "declarations cp (''a.ts'', ''A'') =
      [\<lparr> dc_name = ''foo'', dc_label = Function, dc_kind = ''function'',
         dc_startLine = 1, dc_endLine = 1, dc_content = ''A'' \<rparr>]"
    "declarations cp (''b.ts'', ''B'') = []"
    by (simp_all add: declarations_def cp_def)
  have pa: "map n_id (nodesOf (parseOps cp files)) = [''Function:foo'']"
    "map (\<lambda>e. (r_type e, r_from e, r_to e)) (edgesOf (parseOps cp files)) =
       [(DEFINES, ''File:a.ts'', ''Function:foo'')]"
    unfolding parseOps_def parsed unfolding files_def
    by (simp_all add: decls symbolNode_def edge_def) (simp_all add: cp_def)
  have regs: "registrations cp files = [(''a.ts'', ''foo'', ''Function:foo'', ''function'')]"
    unfolding registrations_def parsed unfolding files_def
    by (simp add: decls) (simp add: cp_def)
  have ri: "resolvedImports cp [''a.ts'', ''b.ts''] (''a.ts'', ''A'') = []"
    "resolvedImports cp [''a.ts'', ''b.ts''] (''b.ts'', ''B'') = [(''foo'', ''a.ts'')]"
    by (simp_all add: resolvedImports_def resolveImport_def candidates_def cp_def)
  have im: "nodesOf (importOps cp files) = []"
    "map (\<lambda>e. (r_type e, r_from e, r_to e)) (edgesOf (importOps cp files)) =
       [(IMPORTS, ''File:b.ts'', ''File:a.ts'')]"
    unfolding importOps_def parsed unfolding files_def
    by (simp_all add: ri edge_def) (simp_all add: cp_def)
  have ims: "importMapsOf cp files ''b.ts'' ''foo'' = Some ''a.ts''"
    "importMapsOf cp files ''b.ts'' ''bar'' = None"
    unfolding importMapsOf_def parsed unfolding files_def
    by (simp_all add: ri)
  have la: "lookupLocal (registerAll (registrations cp files)) ''a.ts'' ''foo'' = Some ''Function:foo''"
    "lookupLocal (registerAll (registrations cp files)) ''b.ts'' ''bar'' = None"
    "lookupGlobal (registerAll (registrations cp files)) ''bar'' = []"
    by (simp_all add: regs lookupLocal_registerAll lookupGlobal_registerAll)
  have rc: "resolveCall (registerAll (registrations cp files)) (importMapsOf cp files) ''foo'' ''b.ts''
      = Some (''Function:foo'', ImportMapTier)"
    "resolveCall (registerAll (registrations cp files)) (importMapsOf cp files) ''bar'' ''b.ts'' = None"
    by (simp_all add: resolveCall_def importMapLookup_def localScopeLookup_def
        globalFallbackLookup_def ims la)
  have calls: "callsOf cp ''a.ts'' ''A'' = []" "callsOf cp ''b.ts'' ''B'' = [''foo'', ''bar'']"
    and fid: "fileId cp = (\<lambda>p. ''File:'' @ p)"
    by (simp_all add: cp_def)
  have ca: "nodesOf (callOps cp files) = []"
    "map (\<lambda>e. (r_type e, r_from e, r_to e)) (edgesOf (callOps cp files)) =
       [(CALLS, ''File:b.ts'', ''Function:foo'')]"
    unfolding callOps_def parsed unfolding files_def
    by (simp_all add: rc [unfolded files_def] calls fid edge_def)
  have "endpointsPresent {} (pipelineOps cp files)"
    using pipeline_endpoints_present [of cp files 0] by simp
  then show ?thesis
    unfolding Let_def cp_def [symmetric] files_def [symmetric]
    by (simp add: pipelineOps_def st pa im ca)
qed

end
